theory Spec2Isabelle
  imports Complex_Main "HOL-Library.Monad_Syntax" "HOL-Library.AList"
begin

section \<open>JavaScript numbers\<close>

text \<open>
  A JavaScript number is an IEEE-754 double: a finite value (a dyadic rational), an
  infinity or NaN. Finite values are carried as rationals, \<open>is_double\<close> holding of
  those that are doubles; every arithmetic result is rounded to the nearest double, ties
  to even, by \<open>fl\<close>. The sign of zero is not modelled (no operation of the program
  observes it).
\<close>

datatype jsnum = Fin rat | PInf | NInf | NaN

text \<open>\<open>ilog2 n\<close> is the position of the leading bit of \<open>n\<close>.\<close>

fun ilog2 :: "nat \<Rightarrow> nat" where
  "ilog2 n = (if n < 2 then 0 else Suc (ilog2 (n div 2)))"

declare ilog2.simps [simp del]

text \<open>The binary exponent \<open>e\<close> of a nonzero rational: \<open>2^e \<le> |x| < 2^(e+1)\<close>.\<close>

definition expo :: "rat \<Rightarrow> int" where
  "expo x = (if 1 \<le> \<bar>x\<bar> then int (ilog2 (nat \<lfloor>\<bar>x\<bar>\<rfloor>))
             else - int (if \<lceil>1 / \<bar>x\<bar>\<rceil> \<le> 1 then 0
                         else Suc (ilog2 (nat (\<lceil>1 / \<bar>x\<bar>\<rceil> - 1)))))"

text \<open>Nearest integer, ties to the even one.\<close>

definition round_even :: "rat \<Rightarrow> int" where
  "round_even q = (let f = \<lfloor>q\<rfloor>; r = q - of_int f in
     if r < 1 / 2 then f else if 1 / 2 < r then f + 1 else if even f then f else f + 1)"

text \<open>
  The spacing of the doubles around \<open>x\<close>: 53 significant bits, and the fixed spacing
  \<open>2^-1074\<close> of the subnormal range below \<open>2^-1022\<close>.
\<close>

definition ulp :: "rat \<Rightarrow> rat" where
  "ulp x = 2 powi (max (expo x) (- 1022) - 52)"

definition fl :: "rat \<Rightarrow> rat" where
  "fl x = (if x = 0 then 0 else sgn x * of_int (round_even (\<bar>x\<bar> / ulp x)) * ulp x)"

text \<open>A rounded result of magnitude \<open>2^1024\<close> or more overflows to an infinity.\<close>

definition rnd :: "rat \<Rightarrow> jsnum" where
  "rnd x = (let y = fl x in
     if 2 ^ 1024 \<le> y then PInf else if y \<le> - (2 ^ 1024) then NInf else Fin y)"

definition is_double :: "rat \<Rightarrow> bool" where
  "is_double x \<longleftrightarrow> fl x = x \<and> \<bar>x\<bar> < 2 ^ 1024"

fun js_lt :: "jsnum \<Rightarrow> jsnum \<Rightarrow> bool" where
  "js_lt NaN _ = False"
| "js_lt _ NaN = False"
| "js_lt (Fin a) (Fin b) = (a < b)"
| "js_lt (Fin a) PInf = True"
| "js_lt (Fin a) NInf = False"
| "js_lt PInf _ = False"
| "js_lt NInf NInf = False"
| "js_lt NInf _ = True"

definition js_gt :: "jsnum \<Rightarrow> jsnum \<Rightarrow> bool" where
  "js_gt a b = js_lt b a"

definition js_le :: "jsnum \<Rightarrow> jsnum \<Rightarrow> bool" where
  "js_le a b \<longleftrightarrow> js_lt a b \<or> (a = b \<and> a \<noteq> NaN)"

definition js_ge :: "jsnum \<Rightarrow> jsnum \<Rightarrow> bool" where
  "js_ge a b = js_le b a"

fun js_neg :: "jsnum \<Rightarrow> jsnum" where
  "js_neg (Fin a) = Fin (- a)"
| "js_neg PInf = NInf"
| "js_neg NInf = PInf"
| "js_neg NaN = NaN"

fun js_abs :: "jsnum \<Rightarrow> jsnum" where
  "js_abs (Fin a) = Fin \<bar>a\<bar>"
| "js_abs PInf = PInf"
| "js_abs NInf = PInf"
| "js_abs NaN = NaN"

fun js_add :: "jsnum \<Rightarrow> jsnum \<Rightarrow> jsnum" where
  "js_add (Fin a) (Fin b) = rnd (a + b)"
| "js_add NaN _ = NaN"
| "js_add _ NaN = NaN"
| "js_add PInf NInf = NaN"
| "js_add NInf PInf = NaN"
| "js_add PInf _ = PInf"
| "js_add NInf _ = NInf"
| "js_add (Fin a) PInf = PInf"
| "js_add (Fin a) NInf = NInf"

definition js_sub :: "jsnum \<Rightarrow> jsnum \<Rightarrow> jsnum" where
  "js_sub a b = js_add a (js_neg b)"

section \<open>JavaScript values and errors\<close>

text \<open>
  The JSON-like values the functions receive and build. An object is an association
  list of its own properties in the order they were created; a property is read at its
  first entry. The prototype of an object is not part of the value.
\<close>

datatype jsval =
    Undefined
  | Null
  | Bool bool
  | Num jsnum
  | Str string
  | Arr "jsval list"
  | Obj "(string \<times> jsval) list"

text \<open>
  The errors the functions throw. \<open>TypeError\<close> is the error of reading a property of
  \<open>null\<close> or \<open>undefined\<close>; the others are the \<open>new Error(...)\<close> of the source, named by
  their message, with the interpolated value as argument.
\<close>

datatype error =
    GeohashNotSupported
  | WktNotSupported
  | GeometryNotSupported jsval
  | UnsupportedFieldType jsval
  | TypeError

text \<open>
  \<open>v.k\<close> for the property names the program reads (\<open>type\<close>, \<open>lat\<close>, \<open>lon\<close>, \<open>_source\<close>,
  \<open>fields\<close>): none of them is defined on a built-in prototype, so only an object can hold
  one; \<open>null\<close> and \<open>undefined\<close> throw.
\<close>

fun get_prop :: "jsval \<Rightarrow> string \<Rightarrow> error + jsval" where
  "get_prop Undefined k = Inl TypeError"
| "get_prop Null k = Inl TypeError"
| "get_prop (Obj kvs) k = Inr (case map_of kvs k of None \<Rightarrow> Undefined | Some v \<Rightarrow> v)"
| "get_prop _ k = Inr Undefined"

text \<open>\<open>o.k = v\<close>; reached in the program only for an object that already holds \<open>k\<close>.\<close>

fun set_prop :: "jsval \<Rightarrow> string \<Rightarrow> jsval \<Rightarrow> jsval" where
  "set_prop (Obj kvs) k v = Obj (AList.update k v kvs)"
| "set_prop w k v = w"

text \<open>\<open>xs[i]\<close> on an array: \<open>undefined\<close> out of range.\<close>

definition index :: "jsval list \<Rightarrow> nat \<Rightarrow> jsval" where
  "index xs i = (if i < length xs then xs ! i else Undefined)"

text \<open>\<open>s.split(c)\<close> for a one-character separator: the pieces between the separators.\<close>

fun split :: "char \<Rightarrow> string \<Rightarrow> string list" where
  "split c [] = [[]]"
| "split c (x # xs) =
     (if x = c then [] # split c xs
      else (case split c xs of [] \<Rightarrow> [[x]] | p # ps \<Rightarrow> (x # p) # ps))"

section \<open>Map extents\<close>

record extent =
  maxLat :: jsnum
  maxLon :: jsnum
  minLat :: jsnum
  minLon :: jsnum

definition envelope :: "jsnum \<Rightarrow> jsnum \<Rightarrow> jsnum \<Rightarrow> jsnum \<Rightarrow> jsval" where
  "envelope minLon' maxLat' maxLon' minLat' =
     Obj [(''type'', Str ''envelope''),
          (''coordinates'', Arr [Arr [Num minLon', Num maxLat'], Arr [Num maxLon', Num minLat']])]"

text \<open>
  \<open>convertMapExtentToEnvelope\<close>: the result is \<open>None\<close> when the recursion never reaches
  the base case. The depth of the recursion is not bounded: the language sets no limit
  to the call stack.
\<close>

partial_function (option) convertMapExtentToEnvelope :: "extent \<Rightarrow> jsval option" where
  "convertMapExtentToEnvelope ext =
    (if js_gt (maxLon ext) (Fin 180) \<and> js_lt (minLon ext) (Fin (- 180)) then
       convertMapExtentToEnvelope
         \<lparr>maxLat = maxLat ext, maxLon = Fin 180, minLat = minLat ext, minLon = Fin (- 180)\<rparr>
     else if js_gt (maxLon ext) (Fin 180) then
       (let overlapWestOfDateLine = js_sub (maxLon ext) (Fin 180) in
        do {
          a \<leftarrow> convertMapExtentToEnvelope
            \<lparr>maxLat = maxLat ext, maxLon = Fin 180, minLat = minLat ext, minLon = minLon ext\<rparr>;
          b \<leftarrow> convertMapExtentToEnvelope
            \<lparr>maxLat = maxLat ext, maxLon = js_add (Fin (- 180)) overlapWestOfDateLine,
             minLat = minLat ext, minLon = Fin (- 180)\<rparr>;
          Some (Arr [a, b])
        })
     else if js_lt (minLon ext) (Fin (- 180)) then
       (let overlapEastOfDateLine = js_sub (js_abs (minLon ext)) (Fin 180) in
        do {
          a \<leftarrow> convertMapExtentToEnvelope
            \<lparr>maxLat = maxLat ext, maxLon = Fin 180, minLat = minLat ext,
             minLon = js_sub (Fin 180) overlapEastOfDateLine\<rparr>;
          b \<leftarrow> convertMapExtentToEnvelope
            \<lparr>maxLat = maxLat ext, maxLon = maxLon ext, minLat = minLat ext, minLon = Fin (- 180)\<rparr>;
          Some (Arr [a, b])
        })
     else Some (envelope (minLon ext) (maxLat ext) (maxLon ext) (minLat ext)))"

text \<open>
  \<open>createExtentFilter\<close>. The computed key \<open>[geoFieldName]\<close> is the field name as a string.
\<close>

definition createExtentFilter :: "extent \<Rightarrow> string \<Rightarrow> jsval \<Rightarrow> error + jsval" where
  "createExtentFilter mapExtent geoFieldName geoFieldType =
    (let noWrapMapExtent =
       \<lparr>maxLat = (if js_gt (maxLat mapExtent) (Fin 90) then Fin 90 else maxLat mapExtent),
        maxLon = (if js_gt (maxLon mapExtent) (Fin 180) then Fin 180 else maxLon mapExtent),
        minLat = (if js_lt (minLat mapExtent) (Fin (- 90)) then Fin (- 90) else minLat mapExtent),
        minLon = (if js_lt (minLon mapExtent) (Fin (- 180)) then Fin (- 180) else minLon mapExtent)\<rparr>
     in
     if geoFieldType = Str ''geo_point'' then
       Inr (Obj [(''geo_bounding_box'',
         Obj [(geoFieldName,
           Obj [(''top_left'',
                  Obj [(''lat'', Num (maxLat noWrapMapExtent)),
                       (''lon'', Num (minLon noWrapMapExtent))]),
                (''bottom_right'',
                  Obj [(''lat'', Num (minLat noWrapMapExtent)),
                       (''lon'', Num (maxLon noWrapMapExtent))])])])])
     else if geoFieldType = Str ''geo_shape'' then
       Inr (Obj [(''geo_shape'',
         Obj [(geoFieldName,
           Obj [(''shape'',
                  Obj [(''type'', Str ''envelope''),
                       (''coordinates'',
                         Arr [Arr [Num (minLon noWrapMapExtent), Num (maxLat noWrapMapExtent)],
                              Arr [Num (maxLon noWrapMapExtent), Num (minLat noWrapMapExtent)]])]),
                (''relation'', Str ''INTERSECTS'')])])])
     else Inl (UnsupportedFieldType geoFieldType))"

section \<open>Points and shapes\<close>

text \<open>
  \<open>geoPointToGeometry\<close>. \<open>parseFloat\<close> is a built-in of the language and is a parameter of
  the model: any function from text to numbers.
\<close>

definition geoPointToGeometry :: "(string \<Rightarrow> jsnum) \<Rightarrow> jsval \<Rightarrow> error + jsval" where
  "geoPointToGeometry parseFloat value =
    (case value of
       Str s \<Rightarrow>
         (let commaSplit = split CHR '','' s in
          if length commaSplit = 1 then Inl GeohashNotSupported
          else Inr (Obj [(''type'', Str ''Point''),
                         (''coordinates'', Arr [Num (parseFloat (commaSplit ! 1)),
                                                Num (parseFloat (commaSplit ! 0))])]))
     | Arr xs \<Rightarrow>
         Inr (Obj [(''type'', Str ''Point''), (''coordinates'', Arr [index xs 0, index xs 1])])
     | Obj kvs \<Rightarrow>
         (case get_prop value ''lat'' of
            Inl e \<Rightarrow> Inl e
          | Inr lat \<Rightarrow>
              (case get_prop value ''lon'' of
                 Inl e \<Rightarrow> Inl e
               | Inr lon \<Rightarrow>
                   Inr (Obj [(''type'', Str ''Point''), (''coordinates'', Arr [lon, lat])])))
     | _ \<Rightarrow>
         Inr (Obj [(''type'', Str ''Point''), (''coordinates'', Arr [Undefined, Undefined])]))"

text \<open>\<open>_.cloneDeep\<close>: values are immutable here, so the copy is the value.\<close>

definition cloneDeep :: "jsval \<Rightarrow> jsval" where
  "cloneDeep v = v"

definition geoShapeToGeometry :: "jsval \<Rightarrow> error + jsval" where
  "geoShapeToGeometry value =
    (case value of
       Str s \<Rightarrow> Inl WktNotSupported
     | _ \<Rightarrow>
        (let geoJson = cloneDeep value in
         case get_prop geoJson ''type'' of
           Inl e \<Rightarrow> Inl e
         | Inr t \<Rightarrow>
            (let geoJson =
               (if t = Str ''point'' then set_prop geoJson ''type'' (Str ''Point'')
                else if t = Str ''linestring'' then set_prop geoJson ''type'' (Str ''LineString'')
                else if t = Str ''polygon'' then set_prop geoJson ''type'' (Str ''Polygon'')
                else if t = Str ''multipoint'' then set_prop geoJson ''type'' (Str ''MultiPoint'')
                else if t = Str ''multilinestring'' then
                  set_prop geoJson ''type'' (Str ''MultiLineString'')
                else if t = Str ''geometrycollection'' then
                  set_prop geoJson ''type'' (Str ''GeometryCollection'')
                else geoJson)
             in
             case get_prop geoJson ''type'' of
               Inl e \<Rightarrow> Inl e
             | Inr t' \<Rightarrow>
                 if t' = Str ''envelope'' \<or> t' = Str ''circle'' then
                   Inl (GeometryNotSupported t')
                 else Inr geoJson)))"

section \<open>Feature collections\<close>

text \<open>Decimal digits of an array index, as \<open>for ... in\<close> names it.\<close>

fun show_nat :: "nat \<Rightarrow> string" where
  "show_nat n =
     (if n < 10 then [char_of (48 + n)] else show_nat (n div 10) @ [char_of (48 + n mod 10)])"

declare show_nat.simps [simp del]

text \<open>
  A property key is an array index when it is the canonical decimal text of a number
  below \<open>2^32 - 1\<close>. An object lists its array-index keys first, in ascending numeric
  order, and its other keys after them in creation order.
\<close>

definition key_value :: "string \<Rightarrow> nat" where
  "key_value k = foldl (\<lambda>n c. 10 * n + (of_char c - 48)) 0 k"

definition array_index :: "string \<Rightarrow> bool" where
  "array_index k =
    (case k of
       [] \<Rightarrow> False
     | c # cs \<Rightarrow>
         list_all (\<lambda>d. (48::nat) \<le> of_char d \<and> of_char d \<le> (57::nat)) k
         \<and> (c \<noteq> CHR ''0'' \<or> cs = [])
         \<and> key_value k < 2 ^ 32 - 1)"

definition js_key_order :: "(string \<times> jsval) list \<Rightarrow> (string \<times> jsval) list" where
  "js_key_order kvs =
     sort_key (\<lambda>(k, v). key_value k) (filter (\<lambda>(k, v). array_index k) kvs)
     @ filter (\<lambda>(k, v). \<not> array_index k) kvs"

text \<open>
  What the loop \<open>for (k in v) { if (v.hasOwnProperty(k)) { ... v[k] ... } }\<close> visits: each
  own enumerable key once with the value read, in the order the language lists them:
  the entries of an object (\<open>clearjunk\<close> keeps the first entry of each key, the one a
  read returns), the indices of an array or of a string, nothing for any other value
  (\<open>null\<close> and \<open>undefined\<close> included). The call \<open>v.hasOwnProperty(k)\<close> goes through
  the object itself: an object with an own property named \<open>hasOwnProperty\<close> (never a
  function in these values) makes the first call throw a \<open>TypeError\<close>.
\<close>

fun own_entries :: "jsval \<Rightarrow> error + (string \<times> jsval) list" where
  "own_entries (Obj kvs) =
     (if map_of kvs ''hasOwnProperty'' \<noteq> None then Inl TypeError
      else Inr (js_key_order (AList.clearjunk kvs)))"
| "own_entries (Arr xs) = Inr (zip (map show_nat [0..<length xs]) xs)"
| "own_entries (Str s) = Inr (zip (map show_nat [0..<length s]) (map (\<lambda>c. Str [c]) s))"
| "own_entries _ = Inr []"

text \<open>
  The object \<open>properties\<close> while it is filled: its own properties, and its prototype,
  which an assignment to \<open>__proto__\<close> can replace: \<open>None\<close> is \<open>Object.prototype\<close>, the
  prototype it is created with, \<open>Some v\<close> the value \<open>v\<close> installed since (\<open>null\<close>, an
  object or an array).
\<close>

type_synonym props = "(string \<times> jsval) list \<times> jsval option"

text \<open>
  Whether an assignment to \<open>__proto__\<close> on an object with this prototype, and no own
  property of that name, reaches the setter of \<open>Object.prototype\<close>: not below a \<open>null\<close>
  prototype, and not when the prototype holds an own property \<open>__proto__\<close>.
\<close>

fun reaches_proto_setter :: "jsval option \<Rightarrow> bool" where
  "reaches_proto_setter None = True"
| "reaches_proto_setter (Some (Obj kvs)) = (map_of kvs ''__proto__'' = None)"
| "reaches_proto_setter (Some (Arr xs)) = True"
| "reaches_proto_setter (Some _) = False"

fun is_object :: "jsval \<Rightarrow> bool" where
  "is_object (Obj kvs) = True"
| "is_object (Arr xs) = True"
| "is_object _ = False"

text \<open>
  \<open>properties[k] = v\<close>: the own property \<open>k\<close> is created, or overwritten in place. The key
  \<open>__proto__\<close> that reaches the setter creates no own property: the setter replaces the
  prototype when \<open>v\<close> is an object, an array or \<open>null\<close>, and does nothing otherwise.
\<close>

fun assign :: "props \<Rightarrow> string \<Rightarrow> jsval \<Rightarrow> props" where
  "assign (properties, proto) k v =
     (if k = ''__proto__'' \<and> map_of properties k = None \<and> reaches_proto_setter proto then
        (properties, if is_object v \<or> v = Null then Some v else proto)
      else (AList.update k v properties, proto))"

text \<open>\<open>Array.isArray(val) && val.length === 1 ? val[0] : val\<close>\<close>

fun unwrap :: "jsval \<Rightarrow> jsval" where
  "unwrap (Arr [x]) = x"
| "unwrap val = val"

text \<open>
  The body of the \<open>map\<close> callback of \<open>hitsToGeoJson\<close>. \<open>get\<close> is lodash's \<open>_.get\<close>, a
  parameter like \<open>parseFloat\<close>.
\<close>

definition hitToFeature ::
  "(jsval \<Rightarrow> string \<Rightarrow> jsval) \<Rightarrow> (string \<Rightarrow> jsnum) \<Rightarrow> string \<Rightarrow> jsval \<Rightarrow> jsval
     \<Rightarrow> error + jsval" where
  "hitToFeature get parseFloat geoFieldName geoFieldType hit =
    (let value = get hit (''_source['' @ geoFieldName @ '']'') in
     case (if geoFieldType = Str ''geo_point'' then geoPointToGeometry parseFloat value
           else if geoFieldType = Str ''geo_shape'' then geoShapeToGeometry value
           else Inl (UnsupportedFieldType geoFieldType)) of
       Inl e \<Rightarrow> Inl e
     | Inr geometry \<Rightarrow>
        (case get_prop hit ''_source'' of
           Inl e \<Rightarrow> Inl e
         | Inr source \<Rightarrow>
            (case own_entries source of
               Inl e \<Rightarrow> Inl e
             | Inr sourceEntries \<Rightarrow>
                (let properties =
                   fold (\<lambda>(fieldName, v) properties.
                           if fieldName \<noteq> geoFieldName then assign properties fieldName v
                           else properties)
                        sourceEntries ([], None)
                 in
                 case get_prop hit ''fields'' of
                   Inl e \<Rightarrow> Inl e
                 | Inr hitFields \<Rightarrow>
                    (case own_entries hitFields of
                       Inl e \<Rightarrow> Inl e
                     | Inr fieldEntries \<Rightarrow>
                        (let properties =
                           fold (\<lambda>(fieldName, val) properties.
                                   assign properties fieldName (unwrap val))
                                fieldEntries properties
                         in
                         Inr (Obj [(''type'', Str ''Feature''),
                                   (''geometry'', geometry),
                                   (''properties'', Obj (fst properties))])))))))"

text \<open>\<open>xs.map(f)\<close> for a callback that may throw: the first error, in order, wins.\<close>

fun map_err :: "('a \<Rightarrow> error + 'b) \<Rightarrow> 'a list \<Rightarrow> error + 'b list" where
  "map_err f [] = Inr []"
| "map_err f (x # xs) =
     (case f x of
        Inl e \<Rightarrow> Inl e
      | Inr y \<Rightarrow> (case map_err f xs of Inl e \<Rightarrow> Inl e | Inr ys \<Rightarrow> Inr (y # ys)))"

text \<open>\<open>hitsToGeoJson\<close>. \<open>has\<close> is lodash's \<open>_.has\<close>.\<close>

definition hitsToGeoJson ::
  "(jsval \<Rightarrow> string \<Rightarrow> bool) \<Rightarrow> (jsval \<Rightarrow> string \<Rightarrow> jsval) \<Rightarrow> (string \<Rightarrow> jsnum)
     \<Rightarrow> jsval list \<Rightarrow> string \<Rightarrow> jsval \<Rightarrow> error + jsval" where
  "hitsToGeoJson has get parseFloat hits geoFieldName geoFieldType =
    (case map_err (hitToFeature get parseFloat geoFieldName geoFieldType)
            (filter (\<lambda>hit. has hit (''_source['' @ geoFieldName @ '']'')) hits) of
       Inl e \<Rightarrow> Inl e
     | Inr features \<Rightarrow>
         Inr (Obj [(''type'', Str ''FeatureCollection''), (''features'', Arr features)]))"

text \<open>
  What \<open>_.has\<close> and \<open>_.get\<close> do with the path \<open>_source[name]\<close> on a record that is a plain
  object, for a field name without dots, brackets or quotes: the own property \<open>name\<close> of
  the own property \<open>_source\<close>. The theorems below hold for any \<open>has\<close> and \<open>get\<close>; these two
  serve to run them on concrete records.
\<close>

definition path_field :: "string \<Rightarrow> string" where
  "path_field path = butlast (drop 8 path)"

definition plain_has :: "jsval \<Rightarrow> string \<Rightarrow> bool" where
  "plain_has hit path =
    (case hit of
       Obj kvs \<Rightarrow>
         (case map_of kvs ''_source'' of
            Some (Obj src) \<Rightarrow> map_of src (path_field path) \<noteq> None
          | _ \<Rightarrow> False)
     | _ \<Rightarrow> False)"

definition plain_get :: "jsval \<Rightarrow> string \<Rightarrow> jsval" where
  "plain_get hit path =
    (case hit of
       Obj kvs \<Rightarrow>
         (case map_of kvs ''_source'' of
            Some (Obj src) \<Rightarrow>
              (case map_of src (path_field path) of None \<Rightarrow> Undefined | Some v \<Rightarrow> v)
          | _ \<Rightarrow> Undefined)
     | _ \<Rightarrow> Undefined)"

section \<open>Definitions used to state the properties\<close>

text \<open>
  The case-translation table as the specification words it: six lowercase tags map to
  their mixed-case equivalents, any other tag passes through unchanged.
\<close>

definition translate_tag :: "string \<Rightarrow> string" where
  "translate_tag t =
    (if t = ''point'' then ''Point''
     else if t = ''linestring'' then ''LineString''
     else if t = ''polygon'' then ''Polygon''
     else if t = ''multipoint'' then ''MultiPoint''
     else if t = ''multilinestring'' then ''MultiLineString''
     else if t = ''geometrycollection'' then ''GeometryCollection''
     else t)"

text \<open>
  Clamping into a closed range, clamping on one side only, and membership in a closed
  range, for the extent-filter property. A NaN is in no range.
\<close>

definition clamp :: "rat \<Rightarrow> rat \<Rightarrow> jsnum \<Rightarrow> jsnum" where
  "clamp lo hi x = (if js_lt x (Fin lo) then Fin lo else if js_gt x (Fin hi) then Fin hi else x)"

definition clamp_below :: "rat \<Rightarrow> jsnum \<Rightarrow> jsnum" where
  "clamp_below lo x = (if js_lt x (Fin lo) then Fin lo else x)"

definition clamp_above :: "rat \<Rightarrow> jsnum \<Rightarrow> jsnum" where
  "clamp_above hi x = (if js_gt x (Fin hi) then Fin hi else x)"

definition in_range :: "rat \<Rightarrow> rat \<Rightarrow> jsnum \<Rightarrow> bool" where
  "in_range lo hi x \<longleftrightarrow> js_le (Fin lo) x \<and> js_le x (Fin hi)"

text \<open>
  The geometry of a geo value under a field type: the dispatch the \<open>map\<close> callback of
  \<open>hitsToGeoJson\<close> makes, named to state which records convert.
\<close>

definition toGeometry :: "(string \<Rightarrow> jsnum) \<Rightarrow> jsval \<Rightarrow> jsval \<Rightarrow> error + jsval" where
  "toGeometry parseFloat geoFieldType value =
    (if geoFieldType = Str ''geo_point'' then geoPointToGeometry parseFloat value
     else if geoFieldType = Str ''geo_shape'' then geoShapeToGeometry value
     else Inl (UnsupportedFieldType geoFieldType))"

text \<open>
  Every envelope record of a (possibly nested) result has both longitudes in
  \<open>[-180,180]\<close>: a sequence holds only such results, a record is an envelope whose two
  corners start with such a longitude.
\<close>

primrec lons_ok :: "jsval \<Rightarrow> bool" where
  "lons_ok Undefined = False"
| "lons_ok Null = False"
| "lons_ok (Bool b) = False"
| "lons_ok (Num n) = False"
| "lons_ok (Str s) = False"
| "lons_ok (Arr xs) = list_all (\<lambda>b. b) (map lons_ok xs)"
| "lons_ok (Obj kvs) =
     (case map_of kvs ''coordinates'' of
        Some (Arr [Arr [Num a, _], Arr [Num b, _]]) \<Rightarrow>
          in_range (- 180) 180 a \<and> in_range (- 180) 180 b
      | _ \<Rightarrow> False)"

text \<open>
  A value that holds an own property named \<open>hasOwnProperty\<close>, and a record whose property
  \<open>k\<close> is such a value: the property loops of \<open>hitsToGeoJson\<close> cannot run over it.
\<close>

definition shadows_hasOwnProperty :: "jsval \<Rightarrow> bool" where
  "shadows_hasOwnProperty v =
    (case v of Obj kvs \<Rightarrow> map_of kvs ''hasOwnProperty'' \<noteq> None | _ \<Rightarrow> False)"

definition prop_shadows :: "jsval \<Rightarrow> string \<Rightarrow> bool" where
  "prop_shadows hit k =
    (case get_prop hit k of Inr v \<Rightarrow> shadows_hasOwnProperty v | Inl e \<Rightarrow> False)"

section \<open>Dateline splitting: the base case\<close>

text \<open>
  C3. For every extent with \<open>minLon >= -180\<close> and \<open>maxLon <= 180\<close> the result is a single
  record, not a sequence, with type tag \<open>envelope\<close> and coordinates
  \<open>[[minLon, maxLat], [maxLon, minLat]]\<close>; the latitudes, whatever they are, are passed
  through.
\<close>

theorem convertMapExtentToEnvelope_no_crossing:
  assumes "js_ge (minLon ext) (Fin (- 180))" and "js_le (maxLon ext) (Fin 180)"
  shows "convertMapExtentToEnvelope ext =
           Some (Obj [(''type'', Str ''envelope''),
                      (''coordinates'', Arr [Arr [Num (minLon ext), Num (maxLat ext)],
                                             Arr [Num (maxLon ext), Num (minLat ext)]])])"
proof -
  have a: "\<not> js_gt (maxLon ext) (Fin 180)"
    using assms(2) by (cases "maxLon ext") (auto simp: js_gt_def js_le_def)
  have b: "\<not> js_lt (minLon ext) (Fin (- 180))"
    using assms(1) by (cases "minLon ext") (auto simp: js_ge_def js_le_def)
  show ?thesis
    by (subst convertMapExtentToEnvelope.simps) (simp add: a b envelope_def)
qed

theorem convertMapExtentToEnvelope_no_crossing_witness:
  "js_ge (Fin (- 170)) (Fin (- 180)) \<and> js_le (Fin 170) (Fin 180) \<and>
   convertMapExtentToEnvelope
     \<lparr>maxLat = Fin 10, maxLon = Fin 170, minLat = Fin (- 10), minLon = Fin (- 170)\<rparr> =
   Some (Obj [(''type'', Str ''envelope''),
              (''coordinates'', Arr [Arr [Num (Fin (- 170)), Num (Fin 10)],
                                     Arr [Num (Fin 170), Num (Fin (- 10))]])])"
proof -
  have a: "js_ge (Fin (- 170)) (Fin (- 180))" by (simp add: js_ge_def js_le_def)
  have b: "js_le (Fin 170) (Fin 180)" by (simp add: js_le_def)
  show ?thesis
    using a b convertMapExtentToEnvelope_no_crossing
      [of "\<lparr>maxLat = Fin 10, maxLon = Fin 170, minLat = Fin (- 10), minLon = Fin (- 170)\<rparr>"]
    by simp
qed

section \<open>Point conversion\<close>

lemma split_nonempty: "split c s \<noteq> []"
  by (induction s) (auto split: list.splits)

lemma split_no_sep: "c \<notin> set s \<Longrightarrow> split c s = [s]"
  by (induction s) auto

lemma split_sep: "c \<notin> set a \<Longrightarrow> split c (a @ c # b) = a # split c b"
  by (induction a) auto

lemma length_split: "length (split c s) = Suc (length (filter (\<lambda>x. x = c) s))"
  by (induction s) (auto split: list.splits simp: split_nonempty)

lemma length_split_one: "length (split c s) = Suc 0 \<longleftrightarrow> c \<notin> set s"
  by (auto simp: length_split filter_empty_conv)

text \<open>
  C6. For finite numbers \<open>lat\<close> and \<open>lon\<close>, the text \<open>lat,lon\<close> (two comma-free pieces that
  \<open>parseFloat\<close> reads as \<open>lat\<close> and \<open>lon\<close>), the pair \<open>[lon, lat]\<close> and the record
  \<open>{lat, lon}\<close> all convert to the same result: type \<open>Point\<close>, coordinates \<open>[lon, lat]\<close>.
\<close>

theorem geoPointToGeometry_encodings_agree:
  assumes "CHR '','' \<notin> set a" and "CHR '','' \<notin> set b"
    and "parseFloat a = Fin lat" and "parseFloat b = Fin lon"
  shows "geoPointToGeometry parseFloat (Str (a @ '','' @ b)) =
           Inr (Obj [(''type'', Str ''Point''),
                     (''coordinates'', Arr [Num (Fin lon), Num (Fin lat)])])
       \<and> geoPointToGeometry parseFloat (Arr [Num (Fin lon), Num (Fin lat)]) =
           Inr (Obj [(''type'', Str ''Point''),
                     (''coordinates'', Arr [Num (Fin lon), Num (Fin lat)])])
       \<and> geoPointToGeometry parseFloat (Obj [(''lat'', Num (Fin lat)), (''lon'', Num (Fin lon))]) =
           Inr (Obj [(''type'', Str ''Point''),
                     (''coordinates'', Arr [Num (Fin lon), Num (Fin lat)])])"
proof -
  have s: "split CHR '','' (a @ CHR '','' # b) = [a, b]"
    using split_sep [OF assms(1), of b] split_no_sep [OF assms(2)] by simp
  show ?thesis
    by (simp add: geoPointToGeometry_def s assms(3,4) index_def)
qed

theorem geoPointToGeometry_encodings_agree_witness:
  "CHR '','' \<notin> set ''10'' \<and> CHR '','' \<notin> set ''20''
   \<and> geoPointToGeometry (\<lambda>s. if s = ''10'' then Fin 10 else if s = ''20'' then Fin 20 else NaN)
        (Str ''10,20'') =
      Inr (Obj [(''type'', Str ''Point''), (''coordinates'', Arr [Num (Fin 20), Num (Fin 10)])])
   \<and> geoPointToGeometry (\<lambda>s. if s = ''10'' then Fin 10 else if s = ''20'' then Fin 20 else NaN)
        (Arr [Num (Fin 20), Num (Fin 10)]) =
      Inr (Obj [(''type'', Str ''Point''), (''coordinates'', Arr [Num (Fin 20), Num (Fin 10)])])
   \<and> geoPointToGeometry (\<lambda>s. if s = ''10'' then Fin 10 else if s = ''20'' then Fin 20 else NaN)
        (Obj [(''lat'', Num (Fin 10)), (''lon'', Num (Fin 20))]) =
      Inr (Obj [(''type'', Str ''Point''), (''coordinates'', Arr [Num (Fin 20), Num (Fin 10)])])"
proof -
  have a: "CHR '','' \<notin> set ''10''" and b: "CHR '','' \<notin> set ''20''" by simp_all
  show ?thesis
    using a b geoPointToGeometry_encodings_agree [OF a b,
      of "\<lambda>s. if s = ''10'' then Fin 10 else if s = ''20'' then Fin 20 else NaN" 10 20]
    by simp
qed

text \<open>
  C7. \<open>geoPointToGeometry\<close> raises exactly on a text without a comma; every other input
  (null, numbers, arrays of any length, records without \<open>lat\<close> or \<open>lon\<close>) returns a
  \<open>Point\<close> record, possibly with undefined coordinates.
\<close>

theorem geoPointToGeometry_raises_iff:
  "((\<exists>e. geoPointToGeometry parseFloat v = Inl e) \<longleftrightarrow> (\<exists>s. v = Str s \<and> CHR '','' \<notin> set s))
   \<and> ((\<exists>lon lat. geoPointToGeometry parseFloat v =
          Inr (Obj [(''type'', Str ''Point''), (''coordinates'', Arr [lon, lat])]))
        \<longleftrightarrow> \<not> (\<exists>s. v = Str s \<and> CHR '','' \<notin> set s))"
  by (cases v) (auto simp: geoPointToGeometry_def Let_def length_split_one)

section \<open>Shape conversion\<close>

lemma map_fst_update:
  "map_of kvs k = Some w \<Longrightarrow> map fst (AList.update k v kvs) = map fst kvs"
  by (induction kvs) (auto split: if_splits)

lemma geoShape_core:
  assumes "get_prop v ''type'' = Inr w" and "\<forall>s. v \<noteq> Str s"
  shows "geoShapeToGeometry v =
    (let g = (if w = Str ''point'' then set_prop v ''type'' (Str ''Point'')
                else if w = Str ''linestring'' then set_prop v ''type'' (Str ''LineString'')
                else if w = Str ''polygon'' then set_prop v ''type'' (Str ''Polygon'')
                else if w = Str ''multipoint'' then set_prop v ''type'' (Str ''MultiPoint'')
                else if w = Str ''multilinestring'' then
                  set_prop v ''type'' (Str ''MultiLineString'')
                else if w = Str ''geometrycollection'' then
                  set_prop v ''type'' (Str ''GeometryCollection'')
                else v)
     in case get_prop g ''type'' of
               Inl e \<Rightarrow> Inl e
             | Inr t' \<Rightarrow>
                 if t' = Str ''envelope'' \<or> t' = Str ''circle'' then
                   Inl (GeometryNotSupported t')
                 else Inr g)"
  using assms unfolding geoShapeToGeometry_def cloneDeep_def
  by (cases v) (simp_all only: jsval.case Let_def sum.case jsval.distinct jsval.inject simp_thms)

lemma geoShape_obj_tag:
  assumes "map_of kvs ''type'' = Some (Str t)" and "translate_tag t \<noteq> t"
  shows "geoShapeToGeometry (Obj kvs) =
           Inr (Obj (AList.update ''type'' (Str (translate_tag t)) kvs))"
proof -
  have g: "get_prop (Obj kvs) ''type'' = Inr (Str t)"
    using assms(1) by simp
  have "t = ''point'' \<or> t = ''linestring'' \<or> t = ''polygon'' \<or> t = ''multipoint''
    \<or> t = ''multilinestring'' \<or> t = ''geometrycollection''"
    using assms(2) by (rule_tac ccontr) (simp add: translate_tag_def)
  then show ?thesis
    using g
    by (elim disjE) (simp_all add: geoShape_core translate_tag_def Let_def update_conv')
qed

lemma geoShape_obj_keep:
  assumes "map_of kvs ''type'' = Some (Str t)" and "translate_tag t = t"
    and "t \<noteq> ''envelope''" and "t \<noteq> ''circle''"
  shows "geoShapeToGeometry (Obj kvs) = Inr (Obj kvs)"
proof -
  have g: "get_prop (Obj kvs) ''type'' = Inr (Str t)"
    using assms(1) by simp
  have ne: "t \<noteq> ''point''" "t \<noteq> ''linestring''" "t \<noteq> ''polygon''" "t \<noteq> ''multipoint''"
    "t \<noteq> ''multilinestring''" "t \<noteq> ''geometrycollection''"
    using assms(2) by (auto simp: translate_tag_def split: if_splits)
  show ?thesis
    using g assms(1) by (simp add: geoShape_core ne assms(3,4) Let_def)
qed

lemma geoShape_obj_unsupported:
  assumes "map_of kvs ''type'' = Some (Str t)" and "t = ''envelope'' \<or> t = ''circle''"
  shows "geoShapeToGeometry (Obj kvs) = Inl (GeometryNotSupported (Str t))"
proof -
  have g: "get_prop (Obj kvs) ''type'' = Inr (Str t)"
    using assms(1) by simp
  show ?thesis
    using g assms
    by (elim disjE) (simp_all add: geoShape_core Let_def)
qed

lemma geoShape_obj_other:
  assumes "\<forall>t. map_of kvs ''type'' \<noteq> Some (Str t)"
  shows "geoShapeToGeometry (Obj kvs) = Inr (Obj kvs)"
proof -
  obtain w where g: "get_prop (Obj kvs) ''type'' = Inr w" and w: "\<forall>t. w \<noteq> Str t"
    using assms by (cases "map_of kvs ''type''") auto
  show ?thesis
    using g w by (simp add: geoShape_core Let_def del: get_prop.simps)
qed

lemma geoShape_non_object:
  "geoShapeToGeometry Undefined = Inl TypeError"
  "geoShapeToGeometry Null = Inl TypeError"
  "geoShapeToGeometry (Str s) = Inl WktNotSupported"
  "geoShapeToGeometry (Bool b) = Inr (Bool b)"
  "geoShapeToGeometry (Num n) = Inr (Num n)"
  "geoShapeToGeometry (Arr xs) = Inr (Arr xs)"
  by (simp_all add: geoShapeToGeometry_def cloneDeep_def)

lemma geoShape_obj_raises:
  "(\<exists>e. geoShapeToGeometry (Obj kvs) = Inl e) \<longleftrightarrow>
     map_of kvs ''type'' = Some (Str ''envelope'') \<or> map_of kvs ''type'' = Some (Str ''circle'')"
proof (cases "\<exists>t. map_of kvs ''type'' = Some (Str t)")
  case True
  then obtain t where t: "map_of kvs ''type'' = Some (Str t)" by blast
  show ?thesis
  proof (cases "t = ''envelope'' \<or> t = ''circle''")
    case True
    then show ?thesis using geoShape_obj_unsupported [OF t] t by auto
  next
    case False
    then have "\<exists>r. geoShapeToGeometry (Obj kvs) = Inr r"
      using geoShape_obj_tag [OF t] geoShape_obj_keep [OF t] by (cases "translate_tag t = t") auto
    then show ?thesis using False t by auto
  qed
next
  case False
  then show ?thesis using geoShape_obj_other [of kvs] by auto
qed

text \<open>
  C8, as stated, fails: \<open>null\<close> is neither a text nor a record, and the read of its
  \<open>type\<close> property throws.
\<close>

theorem geoShapeToGeometry_null_counterexample:
  "geoShapeToGeometry Null = Inl TypeError"
  by (simp add: geoShapeToGeometry_def cloneDeep_def)

text \<open>
  C8, amended. \<open>geoShapeToGeometry\<close> raises exactly on a text, on \<open>null\<close> or \<open>undefined\<close>,
  and on a record whose type tag is \<open>envelope\<close> or \<open>circle\<close>. Any other record comes back
  with the same keys in the same order and the same values, but for a text type tag,
  which is rewritten by the six-entry table (and unchanged when not in the table);
  booleans, numbers and arrays come back as they are.
\<close>

theorem geoShapeToGeometry_raises_iff:
  "((\<exists>e. geoShapeToGeometry v = Inl e) \<longleftrightarrow>
      ((\<exists>s. v = Str s) \<or> v = Null \<or> v = Undefined
       \<or> (\<exists>kvs. v = Obj kvs \<and> (map_of kvs ''type'' = Some (Str ''envelope'')
                                \<or> map_of kvs ''type'' = Some (Str ''circle'')))))
   \<and> (\<forall>kvs t. v = Obj kvs \<longrightarrow> map_of kvs ''type'' = Some (Str t) \<longrightarrow>
         t \<noteq> ''envelope'' \<longrightarrow> t \<noteq> ''circle'' \<longrightarrow>
         (\<exists>r. geoShapeToGeometry v = Inr (Obj r) \<and> map fst r = map fst kvs
              \<and> map_of r = (map_of kvs)(''type'' \<mapsto> Str (translate_tag t))))
   \<and> (\<forall>kvs. v = Obj kvs \<longrightarrow> (\<forall>t. map_of kvs ''type'' \<noteq> Some (Str t)) \<longrightarrow>
         geoShapeToGeometry v = Inr v)
   \<and> ((\<exists>b. v = Bool b) \<or> (\<exists>n. v = Num n) \<or> (\<exists>xs. v = Arr xs) \<longrightarrow> geoShapeToGeometry v = Inr v)"
proof (intro conjI allI impI)
  show "(\<exists>e. geoShapeToGeometry v = Inl e) \<longleftrightarrow>
      ((\<exists>s. v = Str s) \<or> v = Null \<or> v = Undefined
       \<or> (\<exists>kvs. v = Obj kvs \<and> (map_of kvs ''type'' = Some (Str ''envelope'')
                                \<or> map_of kvs ''type'' = Some (Str ''circle''))))"
    by (cases v) (simp_all add: geoShape_non_object geoShape_obj_raises)
next
  fix kvs t
  assume v: "v = Obj kvs" and t: "map_of kvs ''type'' = Some (Str t)"
    and ne: "t \<noteq> ''envelope''" "t \<noteq> ''circle''"
  show "\<exists>r. geoShapeToGeometry v = Inr (Obj r) \<and> map fst r = map fst kvs
              \<and> map_of r = (map_of kvs)(''type'' \<mapsto> Str (translate_tag t))"
  proof (cases "translate_tag t = t")
    case True
    have "(map_of kvs)(''type'' \<mapsto> Str t) = map_of kvs"
      using t by (simp add: fun_upd_idem)
    then show ?thesis
      using geoShape_obj_keep [OF t True ne] True by (simp add: v)
  next
    case False
    show ?thesis
      using geoShape_obj_tag [OF t False] map_fst_update [OF t]
      by (simp add: v update_conv')
  qed
next
  fix kvs
  assume "v = Obj kvs" and "\<forall>t. map_of kvs ''type'' \<noteq> Some (Str t)"
  then show "geoShapeToGeometry v = Inr v"
    using geoShape_obj_other [of kvs] by simp
next
  assume "(\<exists>b. v = Bool b) \<or> (\<exists>n. v = Num n) \<or> (\<exists>xs. v = Arr xs)"
  then show "geoShapeToGeometry v = Inr v"
    by (auto simp: geoShape_non_object)
qed

theorem geoShapeToGeometry_raises_iff_witness:
  "geoShapeToGeometry (Obj [(''type'', Str ''linestring''), (''coordinates'', Arr [])]) =
     Inr (Obj [(''type'', Str ''LineString''), (''coordinates'', Arr [])])
   \<and> geoShapeToGeometry (Obj [(''coordinates'', Arr [])]) = Inr (Obj [(''coordinates'', Arr [])])
   \<and> geoShapeToGeometry (Arr []) = Inr (Arr [])
   \<and> (\<exists>e. geoShapeToGeometry (Obj [(''type'', Str ''circle'')]) = Inl e)"
proof -
  let ?v = "Obj [(''type'', Str ''linestring''), (''coordinates'', Arr [])]"
  have "\<exists>r. geoShapeToGeometry ?v = Inr (Obj r)
          \<and> map fst r = map fst [(''type'', Str ''linestring''), (''coordinates'', Arr [])]
          \<and> map_of r = (map_of [(''type'', Str ''linestring''), (''coordinates'', Arr [])])
                (''type'' \<mapsto> Str (translate_tag ''linestring''))"
    using geoShapeToGeometry_raises_iff [of ?v] by simp
  then obtain r where r: "geoShapeToGeometry ?v = Inr (Obj r)"
    and k: "map fst r = [''type'', ''coordinates'']"
    and m: "map_of r = (map_of [(''type'', Str ''linestring''), (''coordinates'', Arr [])])
                (''type'' \<mapsto> Str ''LineString'')"
    by (auto simp: translate_tag_def)
  from k obtain a b where ab: "r = [(''type'', a), (''coordinates'', b)]"
    by (auto simp: map_eq_Cons_conv)
  have "a = Str ''LineString''" "b = Arr []"
    using fun_cong [OF m, of "''type''"] fun_cong [OF m, of "''coordinates''"]
    by (simp_all add: ab)
  then have 1: "geoShapeToGeometry ?v =
     Inr (Obj [(''type'', Str ''LineString''), (''coordinates'', Arr [])])"
    using r ab by simp
  have 2: "geoShapeToGeometry (Obj [(''coordinates'', Arr [])]) = Inr (Obj [(''coordinates'', Arr [])])"
    using geoShapeToGeometry_raises_iff [of "Obj [(''coordinates'', Arr [])]"] by simp
  have 3: "geoShapeToGeometry (Arr []) = Inr (Arr [])"
    using geoShapeToGeometry_raises_iff [of "Arr []"] by simp
  have 4: "\<exists>e. geoShapeToGeometry (Obj [(''type'', Str ''circle'')]) = Inl e"
    using geoShapeToGeometry_raises_iff [of "Obj [(''type'', Str ''circle'')]"] by simp
  show ?thesis using 1 2 3 4 by blast
qed

section \<open>Extent filter\<close>

text \<open>
  C1, as stated, fails: only the lower side of \<open>minLon\<close> and \<open>minLat\<close> and the upper side
  of \<open>maxLon\<close> and \<open>maxLat\<close> are clamped. An extent lying east of 180 keeps its \<open>minLon\<close>.
\<close>

theorem createExtentFilter_east_counterexample:
  "createExtentFilter \<lparr>maxLat = Fin 10, maxLon = Fin 210, minLat = Fin (- 10), minLon = Fin 200\<rparr>
     ''location'' (Str ''geo_point'') =
   Inr (Obj [(''geo_bounding_box'',
     Obj [(''location'',
       Obj [(''top_left'', Obj [(''lat'', Num (Fin 10)), (''lon'', Num (Fin 200))]),
            (''bottom_right'', Obj [(''lat'', Num (Fin (- 10))), (''lon'', Num (Fin 180))])])])])
   \<and> \<not> in_range (- 180) 180 (Fin 200)"
  by (simp add: createExtentFilter_def in_range_def js_le_def js_gt_def)

lemma clamp_below_clamp:
  "js_le x (Fin hi) \<Longrightarrow> clamp_below lo x = clamp lo hi x"
  by (cases x) (auto simp: clamp_def clamp_below_def js_le_def js_gt_def)

lemma clamp_above_clamp:
  "js_ge x (Fin lo) \<Longrightarrow> clamp_above hi x = clamp lo hi x"
  by (cases x) (auto simp: clamp_def clamp_above_def js_le_def js_ge_def js_gt_def)

lemma in_range_clamp_below:
  "lo \<le> hi \<Longrightarrow> js_le x (Fin hi) \<Longrightarrow> in_range lo hi (clamp_below lo x)"
  by (cases x) (auto simp: clamp_below_def in_range_def js_le_def js_gt_def)

lemma in_range_clamp_above:
  "lo \<le> hi \<Longrightarrow> js_ge x (Fin lo) \<Longrightarrow> in_range lo hi (clamp_above hi x)"
  by (cases x) (auto simp: clamp_above_def in_range_def js_le_def js_ge_def js_gt_def)

text \<open>
  C1, amended. For every extent, whatever its four bounds, \<open>createExtentFilter\<close> builds
  the \<open>geo_bounding_box\<close> and the envelope filter from \<open>minLon\<close> clamped from below at -180,
  \<open>maxLon\<close> clamped from above at 180, \<open>minLat\<close> clamped from below at -90 and \<open>maxLat\<close>
  clamped from above at 90, each bound on its own. A bound that does not lie beyond the
  other end of its range (\<open>minLon <= 180\<close>, \<open>maxLon >= -180\<close>, \<open>minLat <= 90\<close>,
  \<open>maxLat >= -90\<close>) is thereby clamped into its range, \<open>[-180,180]\<close> or \<open>[-90,90]\<close>, whatever
  the other three bounds are.
\<close>

theorem createExtentFilter_clamps:
  "createExtentFilter e name (Str ''geo_point'') =
     Inr (Obj [(''geo_bounding_box'',
       Obj [(name,
         Obj [(''top_left'', Obj [(''lat'', Num (clamp_above 90 (maxLat e))),
                                  (''lon'', Num (clamp_below (- 180) (minLon e)))]),
              (''bottom_right'', Obj [(''lat'', Num (clamp_below (- 90) (minLat e))),
                                      (''lon'', Num (clamp_above 180 (maxLon e)))])])])])
   \<and> createExtentFilter e name (Str ''geo_shape'') =
     Inr (Obj [(''geo_shape'',
       Obj [(name,
         Obj [(''shape'',
                Obj [(''type'', Str ''envelope''),
                     (''coordinates'',
                       Arr [Arr [Num (clamp_below (- 180) (minLon e)), Num (clamp_above 90 (maxLat e))],
                            Arr [Num (clamp_above 180 (maxLon e)), Num (clamp_below (- 90) (minLat e))]])]),
              (''relation'', Str ''INTERSECTS'')])])])
   \<and> (js_le (minLon e) (Fin 180) \<longrightarrow>
        clamp_below (- 180) (minLon e) = clamp (- 180) 180 (minLon e)
        \<and> in_range (- 180) 180 (clamp_below (- 180) (minLon e)))
   \<and> (js_ge (maxLon e) (Fin (- 180)) \<longrightarrow>
        clamp_above 180 (maxLon e) = clamp (- 180) 180 (maxLon e)
        \<and> in_range (- 180) 180 (clamp_above 180 (maxLon e)))
   \<and> (js_le (minLat e) (Fin 90) \<longrightarrow>
        clamp_below (- 90) (minLat e) = clamp (- 90) 90 (minLat e)
        \<and> in_range (- 90) 90 (clamp_below (- 90) (minLat e)))
   \<and> (js_ge (maxLat e) (Fin (- 90)) \<longrightarrow>
        clamp_above 90 (maxLat e) = clamp (- 90) 90 (maxLat e)
        \<and> in_range (- 90) 90 (clamp_above 90 (maxLat e)))"
proof -
  have 1: "createExtentFilter e name (Str ''geo_point'') =
     Inr (Obj [(''geo_bounding_box'',
       Obj [(name,
         Obj [(''top_left'', Obj [(''lat'', Num (clamp_above 90 (maxLat e))),
                                  (''lon'', Num (clamp_below (- 180) (minLon e)))]),
              (''bottom_right'', Obj [(''lat'', Num (clamp_below (- 90) (minLat e))),
                                      (''lon'', Num (clamp_above 180 (maxLon e)))])])])])"
    unfolding createExtentFilter_def Let_def clamp_below_def clamp_above_def by simp
  have 2: "createExtentFilter e name (Str ''geo_shape'') =
     Inr (Obj [(''geo_shape'',
       Obj [(name,
         Obj [(''shape'',
                Obj [(''type'', Str ''envelope''),
                     (''coordinates'',
                       Arr [Arr [Num (clamp_below (- 180) (minLon e)), Num (clamp_above 90 (maxLat e))],
                            Arr [Num (clamp_above 180 (maxLon e)), Num (clamp_below (- 90) (minLat e))]])]),
              (''relation'', Str ''INTERSECTS'')])])])"
    unfolding createExtentFilter_def Let_def clamp_below_def clamp_above_def by simp
  have 3: "js_le (minLon e) (Fin 180) \<longrightarrow>
        clamp_below (- 180) (minLon e) = clamp (- 180) 180 (minLon e)
        \<and> in_range (- 180) 180 (clamp_below (- 180) (minLon e))"
    using clamp_below_clamp [of "minLon e" 180 "- 180"]
      in_range_clamp_below [of "- 180" 180 "minLon e"] by simp
  have 4: "js_ge (maxLon e) (Fin (- 180)) \<longrightarrow>
        clamp_above 180 (maxLon e) = clamp (- 180) 180 (maxLon e)
        \<and> in_range (- 180) 180 (clamp_above 180 (maxLon e))"
    using clamp_above_clamp [of "maxLon e" "- 180" 180]
      in_range_clamp_above [of "- 180" 180 "maxLon e"] by simp
  have 5: "js_le (minLat e) (Fin 90) \<longrightarrow>
        clamp_below (- 90) (minLat e) = clamp (- 90) 90 (minLat e)
        \<and> in_range (- 90) 90 (clamp_below (- 90) (minLat e))"
    using clamp_below_clamp [of "minLat e" 90 "- 90"]
      in_range_clamp_below [of "- 90" 90 "minLat e"] by simp
  have 6: "js_ge (maxLat e) (Fin (- 90)) \<longrightarrow>
        clamp_above 90 (maxLat e) = clamp (- 90) 90 (maxLat e)
        \<and> in_range (- 90) 90 (clamp_above 90 (maxLat e))"
    using clamp_above_clamp [of "maxLat e" "- 90" 90]
      in_range_clamp_above [of "- 90" 90 "maxLat e"] by simp
  show ?thesis using 1 2 3 4 5 6 by blast
qed

theorem createExtentFilter_clamps_witness:
  "js_le (Fin (- 200)) (Fin 180) \<and> js_ge (Fin 200) (Fin (- 180))
   \<and> js_le (Fin (- 100)) (Fin 90) \<and> js_ge (Fin 100) (Fin (- 90))
   \<and> createExtentFilter
        \<lparr>maxLat = Fin 100, maxLon = Fin 200, minLat = Fin (- 100), minLon = Fin (- 200)\<rparr>
        ''location'' (Str ''geo_point'') =
      Inr (Obj [(''geo_bounding_box'',
        Obj [(''location'',
          Obj [(''top_left'', Obj [(''lat'', Num (Fin 90)), (''lon'', Num (Fin (- 180)))]),
               (''bottom_right'', Obj [(''lat'', Num (Fin (- 90))), (''lon'', Num (Fin 180))])])])])
   \<and> in_range (- 180) 180 (Fin (- 180)) \<and> in_range (- 180) 180 (Fin 180)
   \<and> in_range (- 90) 90 (Fin (- 90)) \<and> in_range (- 90) 90 (Fin 90)
   \<and> js_ge (Fin 100) (Fin (- 90)) \<and> \<not> js_le (Fin 200) (Fin 180)
   \<and> createExtentFilter
        \<lparr>maxLat = Fin 100, maxLon = Fin 210, minLat = Fin (- 10), minLon = Fin 200\<rparr>
        ''location'' (Str ''geo_point'') =
      Inr (Obj [(''geo_bounding_box'',
        Obj [(''location'',
          Obj [(''top_left'', Obj [(''lat'', Num (Fin 90)), (''lon'', Num (Fin 200))]),
               (''bottom_right'', Obj [(''lat'', Num (Fin (- 10))), (''lon'', Num (Fin 180))])])])])"
proof -
  let ?e = "\<lparr>maxLat = Fin 100, maxLon = Fin 200, minLat = Fin (- 100), minLon = Fin (- 200)\<rparr>"
  let ?e' = "\<lparr>maxLat = Fin 100, maxLon = Fin 210, minLat = Fin (- 10), minLon = Fin 200\<rparr>"
  have h: "js_le (minLon ?e) (Fin 180)" "js_ge (maxLon ?e) (Fin (- 180))"
    "js_le (minLat ?e) (Fin 90)" "js_ge (maxLat ?e) (Fin (- 90))"
    by (simp_all add: js_le_def js_ge_def)
  have h': "js_ge (maxLat ?e') (Fin (- 90))" "\<not> js_le (minLon ?e') (Fin 180)"
    by (simp_all add: js_le_def js_ge_def)
  have c: "clamp_below (- 180) (Fin (- 200)) = Fin (- 180)" "clamp_above 180 (Fin 200) = Fin 180"
    "clamp_below (- 90) (Fin (- 100)) = Fin (- 90)" "clamp_above 90 (Fin 100) = Fin 90"
    "clamp_below (- 180) (Fin 200) = Fin 200" "clamp_above 180 (Fin 210) = Fin 180"
    "clamp_below (- 90) (Fin (- 10)) = Fin (- 10)"
    by (simp_all add: clamp_below_def clamp_above_def js_gt_def)
  note t = createExtentFilter_clamps [of ?e "''location''"]
  note t' = createExtentFilter_clamps [of ?e' "''location''"]
  have 1: "createExtentFilter ?e ''location'' (Str ''geo_point'') =
      Inr (Obj [(''geo_bounding_box'',
        Obj [(''location'',
          Obj [(''top_left'', Obj [(''lat'', Num (Fin 90)), (''lon'', Num (Fin (- 180)))]),
               (''bottom_right'', Obj [(''lat'', Num (Fin (- 90))), (''lon'', Num (Fin 180))])])])])"
    using conjunct1 [OF t] by (simp add: c)
  have 2: "in_range (- 180) 180 (Fin (- 180))" "in_range (- 180) 180 (Fin 180)"
    "in_range (- 90) 90 (Fin (- 90))" "in_range (- 90) 90 (Fin 90)"
    using t by (simp_all add: c clamp_def js_le_def js_ge_def js_gt_def)
  have 3: "createExtentFilter ?e' ''location'' (Str ''geo_point'') =
      Inr (Obj [(''geo_bounding_box'',
        Obj [(''location'',
          Obj [(''top_left'', Obj [(''lat'', Num (Fin 90)), (''lon'', Num (Fin 200))]),
               (''bottom_right'', Obj [(''lat'', Num (Fin (- 10))), (''lon'', Num (Fin 180))])])])])"
    using conjunct1 [OF t'] by (simp add: c)
  show ?thesis
    using h h' 1 2 3 by simp
qed

section \<open>Feature collections: the field-type check\<close>

lemma map_err_Inr_D:
  "map_err f xs = Inr ys \<Longrightarrow> list_all2 (\<lambda>x y. f x = Inr y) xs ys"
  by (induction xs arbitrary: ys) (auto split: sum.splits)

lemma map_err_total:
  "(\<forall>x\<in>set xs. \<exists>y. f x = Inr y) \<Longrightarrow> \<exists>ys. map_err f xs = Inr ys"
  by (induction xs) (auto split: sum.splits)

lemma map_err_fails:
  "x \<in> set xs \<Longrightarrow> f x = Inl e \<Longrightarrow> \<exists>e'. map_err f xs = Inl e'"
  by (induction xs) (auto split: sum.splits)

lemma map_err_all_fail:
  "xs \<noteq> [] \<Longrightarrow> \<forall>x\<in>set xs. f x = Inl e \<Longrightarrow> map_err f xs = Inl e"
  by (cases xs) auto

lemma hitToFeature_unsupported:
  "geoFieldType \<noteq> Str ''geo_point'' \<Longrightarrow> geoFieldType \<noteq> Str ''geo_shape'' \<Longrightarrow>
   hitToFeature get parseFloat geoFieldName geoFieldType hit = Inl (UnsupportedFieldType geoFieldType)"
  by (simp add: hitToFeature_def)

text \<open>
  C10. The field type is checked per surviving record: with no record holding the geo
  field (an empty input included) the result is an empty \<open>FeatureCollection\<close> for every
  field type; a field type other than \<open>geo_point\<close> and \<open>geo_shape\<close> raises the
  unsupported-field-type error as soon as one record holds the field; and no error at
  all is raised unless some record holds it.
\<close>

theorem hitsToGeoJson_unsupported_type:
  "((\<forall>hit\<in>set hits. \<not> has hit (''_source['' @ geoFieldName @ '']'')) \<longrightarrow>
      hitsToGeoJson has get parseFloat hits geoFieldName geoFieldType =
        Inr (Obj [(''type'', Str ''FeatureCollection''), (''features'', Arr [])]))
   \<and> (geoFieldType \<noteq> Str ''geo_point'' \<and> geoFieldType \<noteq> Str ''geo_shape''
        \<and> (\<exists>hit\<in>set hits. has hit (''_source['' @ geoFieldName @ '']'')) \<longrightarrow>
      hitsToGeoJson has get parseFloat hits geoFieldName geoFieldType =
        Inl (UnsupportedFieldType geoFieldType))
   \<and> ((\<exists>e. hitsToGeoJson has get parseFloat hits geoFieldName geoFieldType = Inl e) \<longrightarrow>
        (\<exists>hit\<in>set hits. has hit (''_source['' @ geoFieldName @ '']'')))"
proof (intro conjI impI)
  let ?p = "''_source['' @ geoFieldName @ '']''"
  let ?kept = "filter (\<lambda>hit. has hit ?p) hits"
  {
    assume "\<forall>hit\<in>set hits. \<not> has hit ?p"
    then have "?kept = []" by (simp add: filter_empty_conv)
    then show "hitsToGeoJson has get parseFloat hits geoFieldName geoFieldType =
        Inr (Obj [(''type'', Str ''FeatureCollection''), (''features'', Arr [])])"
      by (simp add: hitsToGeoJson_def)
  }
  {
    assume a: "geoFieldType \<noteq> Str ''geo_point'' \<and> geoFieldType \<noteq> Str ''geo_shape''
        \<and> (\<exists>hit\<in>set hits. has hit ?p)"
    then have ne: "?kept \<noteq> []" by (auto simp: filter_empty_conv)
    have "map_err (hitToFeature get parseFloat geoFieldName geoFieldType) ?kept =
        Inl (UnsupportedFieldType geoFieldType)"
      using a by (intro map_err_all_fail [OF ne]) (simp add: hitToFeature_unsupported)
    then show "hitsToGeoJson has get parseFloat hits geoFieldName geoFieldType =
        Inl (UnsupportedFieldType geoFieldType)"
      by (simp add: hitsToGeoJson_def)
  }
  {
    assume "\<exists>e. hitsToGeoJson has get parseFloat hits geoFieldName geoFieldType = Inl e"
    then obtain e where
      "map_err (hitToFeature get parseFloat geoFieldName geoFieldType) ?kept = Inl e"
      by (auto simp: hitsToGeoJson_def split: sum.splits)
    then have "?kept \<noteq> []" by auto
    then show "\<exists>hit\<in>set hits. has hit ?p" by (auto simp: filter_empty_conv)
  }
qed

theorem hitsToGeoJson_unsupported_type_witness:
  "hitsToGeoJson plain_has plain_get (\<lambda>s. NaN) [] ''geo'' (Str ''geo_line'') =
     Inr (Obj [(''type'', Str ''FeatureCollection''), (''features'', Arr [])])
   \<and> hitsToGeoJson plain_has plain_get (\<lambda>s. NaN)
       [Obj [(''_source'', Obj [(''name'', Str ''a'')])]] ''geo'' (Str ''geo_line'') =
     Inr (Obj [(''type'', Str ''FeatureCollection''), (''features'', Arr [])])
   \<and> hitsToGeoJson plain_has plain_get (\<lambda>s. NaN)
       [Obj [(''_source'', Obj [(''geo'', Arr [Num (Fin 1), Num (Fin 2)])])]] ''geo''
       (Str ''geo_line'') =
     Inl (UnsupportedFieldType (Str ''geo_line''))"
proof -
  have 1: "hitsToGeoJson plain_has plain_get (\<lambda>s. NaN) [] ''geo'' (Str ''geo_line'') =
     Inr (Obj [(''type'', Str ''FeatureCollection''), (''features'', Arr [])])"
    using hitsToGeoJson_unsupported_type
      [of "[]" plain_has "''geo''" plain_get "\<lambda>s. NaN" "Str ''geo_line''"]
    by simp
  have 2: "hitsToGeoJson plain_has plain_get (\<lambda>s. NaN)
       [Obj [(''_source'', Obj [(''name'', Str ''a'')])]] ''geo'' (Str ''geo_line'') =
     Inr (Obj [(''type'', Str ''FeatureCollection''), (''features'', Arr [])])"
    using hitsToGeoJson_unsupported_type
      [of "[Obj [(''_source'', Obj [(''name'', Str ''a'')])]]" plain_has "''geo''" plain_get
        "\<lambda>s. NaN" "Str ''geo_line''"]
    by (simp add: plain_has_def path_field_def)
  have 3: "hitsToGeoJson plain_has plain_get (\<lambda>s. NaN)
       [Obj [(''_source'', Obj [(''geo'', Arr [Num (Fin 1), Num (Fin 2)])])]] ''geo''
       (Str ''geo_line'') =
     Inl (UnsupportedFieldType (Str ''geo_line''))"
    using hitsToGeoJson_unsupported_type
      [of "[Obj [(''_source'', Obj [(''geo'', Arr [Num (Fin 1), Num (Fin 2)])])]]" plain_has
        "''geo''" plain_get "\<lambda>s. NaN" "Str ''geo_line''"]
    by (simp add: plain_has_def path_field_def)
  show ?thesis using 1 2 3 by blast
qed

section \<open>Feature collections: order and dropped records\<close>

text \<open>
  C9, as stated, fails: the conversion of a record that holds the geo field can raise,
  and then no \<open>FeatureCollection\<close> is returned. A geohash text is such a value.
\<close>

theorem hitsToGeoJson_geohash_counterexample:
  "hitsToGeoJson plain_has plain_get (\<lambda>s. NaN)
     [Obj [(''_source'', Obj [(''geo'', Str ''u4pruydqqvj'')])]] ''geo'' (Str ''geo_point'') =
   Inl GeohashNotSupported"
  by (simp add: hitsToGeoJson_def hitToFeature_def plain_has_def plain_get_def path_field_def
        geoPointToGeometry_def)

lemma get_prop_total:
  "hit \<noteq> Null \<Longrightarrow> hit \<noteq> Undefined \<Longrightarrow> \<exists>v. get_prop hit k = Inr v"
  by (cases hit) auto

lemma own_entries_total:
  "\<not> shadows_hasOwnProperty v \<Longrightarrow> \<exists>es. own_entries v = Inr es"
  by (cases v) (auto simp: shadows_hasOwnProperty_def)

lemma own_entries_shadowed:
  "shadows_hasOwnProperty v \<Longrightarrow> own_entries v = Inl TypeError"
  by (cases v) (auto simp: shadows_hasOwnProperty_def)

lemma hitToFeature_ok:
  assumes "hit \<noteq> Null" and "hit \<noteq> Undefined"
    and "toGeometry parseFloat geoFieldType (get hit (''_source['' @ geoFieldName @ '']'')) = Inr g"
    and "\<not> prop_shadows hit ''_source''" and "\<not> prop_shadows hit ''fields''"
  shows "\<exists>ps. hitToFeature get parseFloat geoFieldName geoFieldType hit =
           Inr (Obj [(''type'', Str ''Feature''), (''geometry'', g), (''properties'', Obj ps)])"
proof -
  obtain s where s: "get_prop hit ''_source'' = Inr s"
    using get_prop_total [OF assms(1,2)] by blast
  obtain f where f: "get_prop hit ''fields'' = Inr f"
    using get_prop_total [OF assms(1,2)] by blast
  have "\<not> shadows_hasOwnProperty s" using assms(4) by (simp add: prop_shadows_def s)
  then obtain ses where ses: "own_entries s = Inr ses" using own_entries_total by blast
  have "\<not> shadows_hasOwnProperty f" using assms(5) by (simp add: prop_shadows_def f)
  then obtain fes where fes: "own_entries f = Inr fes" using own_entries_total by blast
  show ?thesis
    using assms(3) ses fes unfolding hitToFeature_def toGeometry_def Let_def s f by simp
qed

lemma hitToFeature_raises:
  assumes "hit = Null \<or> hit = Undefined
    \<or> (\<exists>e. toGeometry parseFloat geoFieldType
               (get hit (''_source['' @ geoFieldName @ '']'')) = Inl e)
    \<or> prop_shadows hit ''_source'' \<or> prop_shadows hit ''fields''"
  shows "\<exists>e. hitToFeature get parseFloat geoFieldName geoFieldType hit = Inl e"
proof (cases "toGeometry parseFloat geoFieldType (get hit (''_source['' @ geoFieldName @ '']''))")
  case (Inl e)
  then show ?thesis unfolding hitToFeature_def toGeometry_def Let_def by simp
next
  case (Inr g)
  note g = Inr [unfolded toGeometry_def]
  show ?thesis
  proof (cases "get_prop hit ''_source''")
    case (Inl e)
    then show ?thesis unfolding hitToFeature_def Let_def g by simp
  next
    case s: (Inr s)
    then have nn: "hit \<noteq> Null" "hit \<noteq> Undefined" by auto
    show ?thesis
    proof (cases "own_entries s")
      case (Inl e)
      then show ?thesis unfolding hitToFeature_def Let_def g s by simp
    next
      case ses: (Inr ses)
      then have ns: "\<not> prop_shadows hit ''_source''"
        using own_entries_shadowed [of s] by (auto simp: prop_shadows_def s)
      obtain f where f: "get_prop hit ''fields'' = Inr f"
        using get_prop_total [OF nn] by blast
      have "prop_shadows hit ''fields''" using assms nn ns Inr by auto
      then have "own_entries f = Inl TypeError"
        using own_entries_shadowed [of f] by (simp add: prop_shadows_def f)
      with ses show ?thesis unfolding hitToFeature_def Let_def g s f by simp
    qed
  qed
qed

text \<open>
  C9, amended. For field type \<open>geo_point\<close> or \<open>geo_shape\<close>: when every record that holds
  the geo field is an object whose geo value converts without raising and whose
  \<open>_source\<close> and \<open>fields\<close> hold no own property named \<open>hasOwnProperty\<close>, the result is a
  \<open>FeatureCollection\<close> with exactly one feature for each record holding the geo field, in
  the order of the input, each the feature built from its record, with the geometry of
  its geo value; the records without the field are dropped without an error. When some
  record holding the field fails one of these conditions, \<open>hitsToGeoJson\<close> raises.
\<close>

theorem hitsToGeoJson_features:
  assumes "geoFieldType = Str ''geo_point'' \<or> geoFieldType = Str ''geo_shape''"
  shows "((\<forall>hit\<in>set hits. has hit (''_source['' @ geoFieldName @ '']'') \<longrightarrow>
            hit \<noteq> Null \<and> hit \<noteq> Undefined
            \<and> (\<exists>g. toGeometry parseFloat geoFieldType
                       (get hit (''_source['' @ geoFieldName @ '']'')) = Inr g)
            \<and> \<not> prop_shadows hit ''_source'' \<and> \<not> prop_shadows hit ''fields'') \<longrightarrow>
          (\<exists>fs. hitsToGeoJson has get parseFloat hits geoFieldName geoFieldType =
                  Inr (Obj [(''type'', Str ''FeatureCollection''), (''features'', Arr fs)])
             \<and> list_all2
                 (\<lambda>hit f. hitToFeature get parseFloat geoFieldName geoFieldType hit = Inr f
                    \<and> (\<exists>g ps.
                        f = Obj [(''type'', Str ''Feature''), (''geometry'', g),
                                 (''properties'', Obj ps)]
                        \<and> toGeometry parseFloat geoFieldType
                             (get hit (''_source['' @ geoFieldName @ '']'')) = Inr g))
                 (filter (\<lambda>hit. has hit (''_source['' @ geoFieldName @ '']'')) hits) fs))
       \<and> ((\<exists>hit\<in>set hits. has hit (''_source['' @ geoFieldName @ '']'')
              \<and> (hit = Null \<or> hit = Undefined
                  \<or> (\<exists>e. toGeometry parseFloat geoFieldType
                             (get hit (''_source['' @ geoFieldName @ '']'')) = Inl e)
                  \<or> prop_shadows hit ''_source'' \<or> prop_shadows hit ''fields'')) \<longrightarrow>
          (\<exists>e. hitsToGeoJson has get parseFloat hits geoFieldName geoFieldType = Inl e))"
proof (intro conjI impI)
  let ?p = "''_source['' @ geoFieldName @ '']''"
  let ?kept = "filter (\<lambda>hit. has hit ?p) hits"
  let ?cb = "hitToFeature get parseFloat geoFieldName geoFieldType"
  let ?R = "\<lambda>hit f. ?cb hit = Inr f
              \<and> (\<exists>g ps.
                  f = Obj [(''type'', Str ''Feature''), (''geometry'', g), (''properties'', Obj ps)]
                  \<and> toGeometry parseFloat geoFieldType (get hit ?p) = Inr g)"
  {
    assume ok: "\<forall>hit\<in>set hits. has hit ?p \<longrightarrow>
            hit \<noteq> Null \<and> hit \<noteq> Undefined
            \<and> (\<exists>g. toGeometry parseFloat geoFieldType (get hit ?p) = Inr g)
            \<and> \<not> prop_shadows hit ''_source'' \<and> \<not> prop_shadows hit ''fields''"
    have each: "\<forall>hit\<in>set ?kept. \<exists>f. ?R hit f"
    proof
      fix hit assume "hit \<in> set ?kept"
      then have h: "hit \<in> set hits" "has hit ?p" by auto
      with ok obtain g where g: "hit \<noteq> Null" "hit \<noteq> Undefined"
        "toGeometry parseFloat geoFieldType (get hit ?p) = Inr g"
        "\<not> prop_shadows hit ''_source''" "\<not> prop_shadows hit ''fields''" by blast
      from hitToFeature_ok [of hit parseFloat geoFieldType get geoFieldName g, OF g] obtain ps where
        "?cb hit = Inr (Obj [(''type'', Str ''Feature''), (''geometry'', g), (''properties'', Obj ps)])"
        by blast
      with g(3) show "\<exists>f. ?R hit f" by blast
    qed
    then have "\<forall>hit\<in>set ?kept. \<exists>f. ?cb hit = Inr f" by blast
    then obtain fs where fs: "map_err ?cb ?kept = Inr fs"
      using map_err_total [of ?kept ?cb] by blast
    have L: "list_all2 (\<lambda>hit f. ?cb hit = Inr f) ?kept fs"
      using map_err_Inr_D [OF fs] .
    have "list_all2 ?R ?kept fs"
    proof (rule list.rel_mono_strong [OF L])
      fix hit f
      assume "hit \<in> set ?kept" and c: "?cb hit = Inr f"
      with each obtain f' where r: "?R hit f'" by blast
      with c have "f' = f" by simp
      with r show "?R hit f" by simp
    qed
    moreover have "hitsToGeoJson has get parseFloat hits geoFieldName geoFieldType =
        Inr (Obj [(''type'', Str ''FeatureCollection''), (''features'', Arr fs)])"
      using fs by (simp add: hitsToGeoJson_def)
    ultimately show "\<exists>fs. hitsToGeoJson has get parseFloat hits geoFieldName geoFieldType =
                  Inr (Obj [(''type'', Str ''FeatureCollection''), (''features'', Arr fs)])
             \<and> list_all2 ?R ?kept fs"
      by blast
  }
  {
    assume "\<exists>hit\<in>set hits. has hit ?p
              \<and> (hit = Null \<or> hit = Undefined
                  \<or> (\<exists>e. toGeometry parseFloat geoFieldType (get hit ?p) = Inl e)
                  \<or> prop_shadows hit ''_source'' \<or> prop_shadows hit ''fields'')"
    then obtain hit where h: "hit \<in> set ?kept"
      and b: "hit = Null \<or> hit = Undefined
                  \<or> (\<exists>e. toGeometry parseFloat geoFieldType (get hit ?p) = Inl e)
                  \<or> prop_shadows hit ''_source'' \<or> prop_shadows hit ''fields''" by auto
    from hitToFeature_raises [of hit parseFloat geoFieldType get geoFieldName, OF b]
    obtain e where "?cb hit = Inl e" by blast
    from map_err_fails [of hit ?kept ?cb e, OF h this]
    obtain e' where "map_err ?cb ?kept = Inl e'" by blast
    then show "\<exists>e. hitsToGeoJson has get parseFloat hits geoFieldName geoFieldType = Inl e"
      by (simp add: hitsToGeoJson_def)
  }
qed

theorem hitsToGeoJson_features_witness:
  "hitsToGeoJson plain_has plain_get (\<lambda>s. NaN)
     [Obj [(''_source'', Obj [(''geo'', Arr [Num (Fin 1), Num (Fin 2)]), (''name'', Str ''a'')])],
      Obj [(''_source'', Obj [(''name'', Str ''b'')])],
      Obj [(''_source'', Obj [(''geo'', Arr [Num (Fin 3), Num (Fin 4)]), (''b'', Str ''x''),
                               (''1'', Str ''y''), (''__proto__'', Str ''z'')]),
           (''fields'', Obj [(''count'', Arr [Num (Fin 5)])])]]
     ''geo'' (Str ''geo_point'') =
   Inr (Obj [(''type'', Str ''FeatureCollection''),
             (''features'',
               Arr [Obj [(''type'', Str ''Feature''),
                         (''geometry'', Obj [(''type'', Str ''Point''),
                                             (''coordinates'', Arr [Num (Fin 1), Num (Fin 2)])]),
                         (''properties'', Obj [(''name'', Str ''a'')])],
                    Obj [(''type'', Str ''Feature''),
                         (''geometry'', Obj [(''type'', Str ''Point''),
                                             (''coordinates'', Arr [Num (Fin 3), Num (Fin 4)])]),
                         (''properties'', Obj [(''1'', Str ''y''), (''b'', Str ''x''),
                                               (''count'', Num (Fin 5))])]])])
   \<and> (\<exists>e. hitsToGeoJson plain_has plain_get (\<lambda>s. NaN)
            [Obj [(''_source'', Obj [(''geo'', Arr [Num (Fin 1), Num (Fin 2)]),
                                     (''hasOwnProperty'', Num (Fin 1))])]]
            ''geo'' (Str ''geo_point'') = Inl e)"
proof
  let ?h1 = "Obj [(''_source'', Obj [(''geo'', Arr [Num (Fin 1), Num (Fin 2)]), (''name'', Str ''a'')])]"
  let ?h2 = "Obj [(''_source'', Obj [(''name'', Str ''b'')])]"
  let ?h3 = "Obj [(''_source'', Obj [(''geo'', Arr [Num (Fin 3), Num (Fin 4)]), (''b'', Str ''x''),
                               (''1'', Str ''y''), (''__proto__'', Str ''z'')]),
           (''fields'', Obj [(''count'', Arr [Num (Fin 5)])])]"
  let ?f1 = "Obj [(''type'', Str ''Feature''),
                (''geometry'', Obj [(''type'', Str ''Point''),
                                    (''coordinates'', Arr [Num (Fin 1), Num (Fin 2)])]),
                (''properties'', Obj [(''name'', Str ''a'')])]"
  let ?f3 = "Obj [(''type'', Str ''Feature''),
                (''geometry'', Obj [(''type'', Str ''Point''),
                                    (''coordinates'', Arr [Num (Fin 3), Num (Fin 4)])]),
                (''properties'', Obj [(''1'', Str ''y''), (''b'', Str ''x''),
                                      (''count'', Num (Fin 5))])]"
  have k: "filter (\<lambda>hit. plain_has hit (''_source['' @ ''geo'' @ '']'')) [?h1, ?h2, ?h3] = [?h1, ?h3]"
    by (simp add: plain_has_def path_field_def)
  have g1: "toGeometry (\<lambda>s. NaN) (Str ''geo_point'') (plain_get ?h1 (''_source['' @ ''geo'' @ '']'')) =
      Inr (Obj [(''type'', Str ''Point''), (''coordinates'', Arr [Num (Fin 1), Num (Fin 2)])])"
    by (simp add: toGeometry_def plain_get_def path_field_def geoPointToGeometry_def index_def)
  have g3: "toGeometry (\<lambda>s. NaN) (Str ''geo_point'') (plain_get ?h3 (''_source['' @ ''geo'' @ '']'')) =
      Inr (Obj [(''type'', Str ''Point''), (''coordinates'', Arr [Num (Fin 3), Num (Fin 4)])])"
    by (simp add: toGeometry_def plain_get_def path_field_def geoPointToGeometry_def index_def)
  have ok: "\<forall>hit\<in>set [?h1, ?h2, ?h3]. plain_has hit (''_source['' @ ''geo'' @ '']'') \<longrightarrow>
            hit \<noteq> Null \<and> hit \<noteq> Undefined
            \<and> (\<exists>g. toGeometry (\<lambda>s. NaN) (Str ''geo_point'')
                       (plain_get hit (''_source['' @ ''geo'' @ '']'')) = Inr g)
            \<and> \<not> prop_shadows hit ''_source'' \<and> \<not> prop_shadows hit ''fields''"
    using g1 g3
    by (simp add: plain_has_def path_field_def prop_shadows_def shadows_hasOwnProperty_def)
  from hitsToGeoJson_features
    [of "Str ''geo_point''" "[?h1, ?h2, ?h3]" plain_has "''geo''" "\<lambda>s. NaN" plain_get] ok
  obtain fs where r: "hitsToGeoJson plain_has plain_get (\<lambda>s. NaN) [?h1, ?h2, ?h3] ''geo''
        (Str ''geo_point'') = Inr (Obj [(''type'', Str ''FeatureCollection''), (''features'', Arr fs)])"
    and l: "list_all2
              (\<lambda>hit f. hitToFeature plain_get (\<lambda>s. NaN) ''geo'' (Str ''geo_point'') hit = Inr f
                 \<and> (\<exists>g ps.
                        f = Obj [(''type'', Str ''Feature''), (''geometry'', g),
                                 (''properties'', Obj ps)]
                        \<and> toGeometry (\<lambda>s. NaN) (Str ''geo_point'')
                             (plain_get hit (''_source['' @ ''geo'' @ '']'')) = Inr g))
              (filter (\<lambda>hit. plain_has hit (''_source['' @ ''geo'' @ '']'')) [?h1, ?h2, ?h3]) fs"
    by blast
  have c1: "hitToFeature plain_get (\<lambda>s. NaN) ''geo'' (Str ''geo_point'') ?h1 = Inr ?f1"
    by (simp add: hitToFeature_def plain_get_def path_field_def geoPointToGeometry_def index_def
          js_key_order_def array_index_def key_value_def)
  have c3: "hitToFeature plain_get (\<lambda>s. NaN) ''geo'' (Str ''geo_point'') ?h3 = Inr ?f3"
    by (simp add: hitToFeature_def plain_get_def path_field_def geoPointToGeometry_def index_def
          js_key_order_def array_index_def key_value_def)
  from l obtain a b where fs: "fs = [a, b]"
    and a: "hitToFeature plain_get (\<lambda>s. NaN) ''geo'' (Str ''geo_point'') ?h1 = Inr a"
    and b: "hitToFeature plain_get (\<lambda>s. NaN) ''geo'' (Str ''geo_point'') ?h3 = Inr b"
    unfolding k by (auto simp: list_all2_Cons1)
  from a c1 have "a = ?f1" by simp
  moreover from b c3 have "b = ?f3" by simp
  ultimately show "hitsToGeoJson plain_has plain_get (\<lambda>s. NaN) [?h1, ?h2, ?h3] ''geo''
        (Str ''geo_point'') = Inr (Obj [(''type'', Str ''FeatureCollection''),
             (''features'', Arr [?f1, ?f3])])"
    using r fs by simp
next
  let ?h = "Obj [(''_source'', Obj [(''geo'', Arr [Num (Fin 1), Num (Fin 2)]),
                                     (''hasOwnProperty'', Num (Fin 1))])]"
  have "\<exists>hit\<in>set [?h]. plain_has hit (''_source['' @ ''geo'' @ '']'')
              \<and> (hit = Null \<or> hit = Undefined
                  \<or> (\<exists>e. toGeometry (\<lambda>s. NaN) (Str ''geo_point'')
                             (plain_get hit (''_source['' @ ''geo'' @ '']'')) = Inl e)
                  \<or> prop_shadows hit ''_source'' \<or> prop_shadows hit ''fields'')"
    by (simp add: plain_has_def path_field_def prop_shadows_def shadows_hasOwnProperty_def)
  with hitsToGeoJson_features
    [of "Str ''geo_point''" "[?h]" plain_has "''geo''" "\<lambda>s. NaN" plain_get]
  show "\<exists>e. hitsToGeoJson plain_has plain_get (\<lambda>s. NaN) [?h] ''geo'' (Str ''geo_point'') = Inl e"
    by blast
qed

section \<open>Rounding to the nearest double\<close>

lemma ilog2_bounds: "0 < n \<Longrightarrow> 2 ^ ilog2 n \<le> n \<and> n < 2 ^ Suc (ilog2 n)"
proof (induction n rule: ilog2.induct)
  case (1 n)
  show ?case
  proof (cases "n < 2")
    case True
    with "1.prems" have "n = 1" by simp
    then show ?thesis by (simp add: ilog2.simps)
  next
    case False
    then have d: "0 < n div 2" by simp
    from "1.IH" [OF False d]
    have ih: "2 ^ ilog2 (n div 2) \<le> n div 2" "n div 2 < 2 ^ Suc (ilog2 (n div 2))" by simp_all
    have e: "ilog2 n = Suc (ilog2 (n div 2))"
      using False by (subst ilog2.simps) simp
    have "2 * 2 ^ ilog2 (n div 2) \<le> n" using ih(1) by linarith
    moreover have "n < 2 * 2 ^ Suc (ilog2 (n div 2))" using ih(2) by linarith
    ultimately show ?thesis by (simp add: e)
  qed
qed

lemma pow2_le_of_nat: "2 ^ k \<le> (n::nat) \<Longrightarrow> (2::rat) ^ k \<le> rat_of_nat n"
proof -
  assume "2 ^ k \<le> n"
  then have "rat_of_nat (2 ^ k) \<le> rat_of_nat n" by (rule of_nat_mono)
  then show ?thesis by simp
qed

lemma of_nat_le_pow2: "(n::nat) \<le> 2 ^ k \<Longrightarrow> rat_of_nat n \<le> (2::rat) ^ k"
proof -
  assume "n \<le> 2 ^ k"
  then have "rat_of_nat n \<le> rat_of_nat (2 ^ k)" by (rule of_nat_mono)
  then show ?thesis by simp
qed

lemma expo_bounds:
  assumes "x \<noteq> 0"
  shows "2 powi (expo x) \<le> \<bar>x\<bar> \<and> \<bar>x\<bar> < 2 powi (expo x + 1)"
proof (cases "1 \<le> \<bar>x\<bar>")
  case True
  define n where "n = nat \<lfloor>\<bar>x\<bar>\<rfloor>"
  have fl1: "1 \<le> \<lfloor>\<bar>x\<bar>\<rfloor>" using True by (simp add: le_floor_iff)
  then have n: "0 < n" by (simp add: n_def)
  have e: "expo x = int (ilog2 n)" using True by (simp add: expo_def n_def)
  have nn: "rat_of_nat n = of_int \<lfloor>\<bar>x\<bar>\<rfloor>" using fl1 by (simp add: n_def)
  have nx: "rat_of_nat n \<le> \<bar>x\<bar>" "\<bar>x\<bar> < rat_of_nat n + 1"
    unfolding nn by linarith+
  from ilog2_bounds [OF n] have b: "2 ^ ilog2 n \<le> n" "n + 1 \<le> 2 ^ Suc (ilog2 n)" by simp_all
  have "(2::rat) ^ ilog2 n \<le> rat_of_nat n"
    using b(1) by (rule pow2_le_of_nat)
  moreover have "rat_of_nat n + 1 \<le> 2 ^ Suc (ilog2 n)"
    using of_nat_le_pow2 [OF b(2)] by simp
  ultimately have "2 ^ ilog2 n \<le> \<bar>x\<bar>" "\<bar>x\<bar> < 2 ^ Suc (ilog2 n)"
    using nx by linarith+
  moreover have "(2::rat) powi (int (ilog2 n) + 1) = 2 ^ Suc (ilog2 n)"
    by (simp add: power_int_add)
  ultimately show ?thesis
    unfolding e by simp
next
  case False
  define y where "y = 1 / \<bar>x\<bar>"
  have xpos: "0 < \<bar>x\<bar>" using assms by simp
  have y: "1 < y" using False xpos by (simp add: y_def)
  define k where "k = \<lceil>y\<rceil>"
  have k: "2 \<le> k" using y unfolding k_def by linarith
  define m where "m = nat (k - 1)"
  have m: "0 < m" using k by (simp add: m_def)
  define c where "c = Suc (ilog2 m)"
  have e: "expo x = - int c"
    using False k by (simp add: expo_def y_def [symmetric] k_def [symmetric] m_def c_def)
  from ilog2_bounds [OF m] have b: "2 ^ ilog2 m \<le> m" "m + 1 \<le> 2 ^ c" by (simp_all add: c_def)
  have mk: "rat_of_nat m = of_int k - 1" using k by (simp add: m_def)
  have "rat_of_nat m + 1 \<le> 2 ^ c"
    using of_nat_le_pow2 [OF b(2)] by simp
  moreover have "y \<le> rat_of_int k" unfolding k_def by linarith
  ultimately have yc: "y \<le> 2 ^ c" using mk by linarith
  have "(2::rat) ^ ilog2 m \<le> rat_of_nat m"
    using b(1) by (rule pow2_le_of_nat)
  moreover have "rat_of_int k - 1 < y" unfolding k_def by linarith
  ultimately have cy: "(2::rat) ^ ilog2 m < y" using mk by linarith
  have xy: "\<bar>x\<bar> = 1 / y" using xpos by (simp add: y_def)
  have 1: "2 powi (- int c) \<le> \<bar>x\<bar>"
  proof -
    have "1 / 2 ^ c \<le> 1 / y" using yc y by (intro divide_left_mono) simp_all
    then show ?thesis by (simp add: xy power_int_minus_divide)
  qed
  have 2: "\<bar>x\<bar> < 2 powi (- int c + 1)"
  proof -
    have "0 < y" using y by simp
    then have "0 < y * 2 ^ ilog2 m" by (intro mult_pos_pos) simp_all
    then have "1 / y < 1 / 2 ^ ilog2 m" using cy by (intro divide_strict_left_mono) simp_all
    moreover have "(2::rat) powi (- int c + 1) = 1 / 2 ^ ilog2 m"
      by (simp add: c_def power_int_minus_divide)
    ultimately show ?thesis by (simp add: xy)
  qed
  show ?thesis using 1 2 by (simp add: e)
qed

lemma pow2_exp_less: "(2::rat) powi a < 2 powi b \<Longrightarrow> a < b"
proof (rule ccontr)
  assume l: "(2::rat) powi a < 2 powi b" and "\<not> a < b"
  then have "b \<le> a" by simp
  then have "(2::rat) powi b \<le> 2 powi a" by (intro power_int_increasing) simp_all
  with l show False by simp
qed

lemma pow2_le_abs_nz:
  assumes "2 powi e \<le> \<bar>x::rat\<bar>"
  shows "x \<noteq> 0"
proof
  assume "x = 0"
  with assms have "2 powi e \<le> (0::rat)" by simp
  moreover have "(0::rat) < 2 powi e" by (rule zero_less_power_int) simp
  ultimately show False by linarith
qed

lemma expo_unique:
  assumes "2 powi e \<le> \<bar>x\<bar>" and "\<bar>x\<bar> < 2 powi (e + 1)"
  shows "expo x = e"
proof -
  have "x \<noteq> 0" using assms(1) by (rule pow2_le_abs_nz)
  from expo_bounds [OF this]
  have b: "2 powi (expo x) \<le> \<bar>x\<bar>" "\<bar>x\<bar> < 2 powi (expo x + 1)" by simp_all
  have "(2::rat) powi e < 2 powi (expo x + 1)" using assms(1) b(2) by linarith
  then have 1: "e < expo x + 1" by (rule pow2_exp_less)
  have "(2::rat) powi (expo x) < 2 powi (e + 1)" using assms(2) b(1) by linarith
  then have 2: "expo x < e + 1" by (rule pow2_exp_less)
  show ?thesis using 1 2 by simp
qed

lemma expo_le:
  assumes "x \<noteq> 0" and "\<bar>x\<bar> < 2 powi (e + 1)"
  shows "expo x \<le> e"
proof -
  from expo_bounds [OF assms(1)] have "2 powi (expo x) \<le> \<bar>x\<bar>" by simp
  then have "(2::rat) powi (expo x) < 2 powi (e + 1)" using assms(2) by linarith
  then have "expo x < e + 1" by (rule pow2_exp_less)
  then show ?thesis by simp
qed

lemma expo_ge:
  assumes "2 powi e \<le> \<bar>x\<bar>"
  shows "e \<le> expo x"
proof -
  have "x \<noteq> 0" using assms by (rule pow2_le_abs_nz)
  from expo_bounds [OF this] have "\<bar>x\<bar> < 2 powi (expo x + 1)" by simp
  then have "(2::rat) powi e < 2 powi (expo x + 1)" using assms by linarith
  then have "e < expo x + 1" by (rule pow2_exp_less)
  then show ?thesis by simp
qed

lemma round_even_cases: "round_even q = \<lfloor>q\<rfloor> \<or> round_even q = \<lfloor>q\<rfloor> + 1"
  by (simp add: round_even_def Let_def)

lemma round_even_int [simp]: "round_even (of_int n) = n"
  by (simp add: round_even_def Let_def)

lemma round_even_err: "\<bar>of_int (round_even q) - q\<bar> \<le> 1 / 2"
proof -
  have "of_int \<lfloor>q\<rfloor> \<le> q" "q < of_int \<lfloor>q\<rfloor> + 1" by linarith+
  then show ?thesis
    by (auto simp: round_even_def Let_def abs_le_iff)
qed

lemma round_even_near:
  assumes "\<bar>q - of_int n\<bar> < 1 / 2"
  shows "round_even q = n"
proof -
  have "\<bar>rat_of_int (round_even q) - of_int n\<bar> < 1"
    using round_even_err [of q] assms by linarith
  then have "\<bar>rat_of_int (round_even q - n)\<bar> < 1" by simp
  then have "\<bar>round_even q - n\<bar> < 1" by (metis of_int_1 of_int_abs of_int_less_iff)
  then show ?thesis by simp
qed

lemma round_even_le:
  assumes "q \<le> of_int n"
  shows "round_even q \<le> n"
proof -
  have f: "\<lfloor>q\<rfloor> \<le> n" using assms by (simp add: floor_le_iff)
  show ?thesis
  proof (cases "round_even q = \<lfloor>q\<rfloor>")
    case True
    then show ?thesis using f by simp
  next
    case False
    then have r: "round_even q = \<lfloor>q\<rfloor> + 1" using round_even_cases [of q] by simp
    have "q \<noteq> of_int \<lfloor>q\<rfloor>"
    proof
      assume "q = of_int \<lfloor>q\<rfloor>"
      then have "round_even q = \<lfloor>q\<rfloor>" by (metis round_even_int)
      with False show False by simp
    qed
    then have "of_int \<lfloor>q\<rfloor> < q" using of_int_floor_le [of q] by linarith
    then have "rat_of_int \<lfloor>q\<rfloor> < of_int n" using assms by linarith
    then have "\<lfloor>q\<rfloor> < n" by simp
    then show ?thesis using r by simp
  qed
qed

lemma round_even_ge:
  assumes "of_int n \<le> q"
  shows "n \<le> round_even q"
proof -
  have "n \<le> \<lfloor>q\<rfloor>" using assms by (simp add: le_floor_iff)
  then show ?thesis using round_even_cases [of q] by auto
qed

lemma ulp_pos: "0 < ulp x"
  unfolding ulp_def by (rule zero_less_power_int) simp

lemma round_even_nonneg: "0 \<le> q \<Longrightarrow> 0 \<le> round_even q"
  using round_even_ge [of 0 q] by simp

lemma fl_abs: "\<bar>fl x\<bar> = of_int (round_even (\<bar>x\<bar> / ulp x)) * ulp x"
proof (cases "x = 0")
  case True
  have "round_even 0 = 0" using round_even_int [of 0] by simp
  then show ?thesis using True by (simp add: fl_def)
next
  case False
  have "0 \<le> \<bar>x\<bar> / ulp x" using ulp_pos [of x] by simp
  then have n: "0 \<le> round_even (\<bar>x\<bar> / ulp x)" by (rule round_even_nonneg)
  have "\<bar>fl x\<bar> = \<bar>sgn x\<bar> * \<bar>rat_of_int (round_even (\<bar>x\<bar> / ulp x))\<bar> * \<bar>ulp x\<bar>"
    using False by (simp add: fl_def abs_mult)
  also have "\<dots> = of_int (round_even (\<bar>x\<bar> / ulp x)) * ulp x"
    using False n ulp_pos [of x] by (simp add: abs_sgn_eq)
  finally show ?thesis .
qed

lemma fl_sgn: "fl x = sgn x * \<bar>fl x\<bar>"
proof (cases "x = 0")
  case True
  then show ?thesis by (simp add: fl_def)
next
  case False
  then show ?thesis unfolding fl_abs by (simp add: fl_def)
qed

lemma fl_nonneg: "0 \<le> x \<Longrightarrow> 0 \<le> fl x"
  by (subst fl_sgn) (simp add: sgn_if)

lemma fl_nonpos: "x \<le> 0 \<Longrightarrow> fl x \<le> 0"
  by (subst fl_sgn) (simp add: sgn_if)

lemma fl_err: "\<bar>fl x - x\<bar> \<le> ulp x / 2"
proof -
  let ?u = "ulp x"
  let ?N = "rat_of_int (round_even (\<bar>x\<bar> / ?u))"
  have u: "0 < ?u" by (rule ulp_pos)
  have "fl x - x = sgn x * (\<bar>fl x\<bar> - \<bar>x\<bar>)"
    by (subst fl_sgn) (simp add: algebra_simps sgn_if)
  then have "\<bar>fl x - x\<bar> \<le> \<bar>\<bar>fl x\<bar> - \<bar>x\<bar>\<bar>"
    by (simp add: abs_mult sgn_if)
  also have "\<bar>fl x\<bar> - \<bar>x\<bar> = (?N - \<bar>x\<bar> / ?u) * ?u"
    using u by (simp add: fl_abs algebra_simps)
  also have "\<bar>(?N - \<bar>x\<bar> / ?u) * ?u\<bar> = \<bar>?N - \<bar>x\<bar> / ?u\<bar> * ?u"
    using u by (simp add: abs_mult)
  also have "\<dots> \<le> 1 / 2 * ?u"
    using round_even_err [of "\<bar>x\<bar> / ?u"] u by (intro mult_right_mono) simp_all
  finally show ?thesis by simp
qed

lemma fl_exact:
  assumes "x = of_int m * 2 powi k" and "\<bar>x\<bar> < 2 powi (k + 53)" and "- 1074 \<le> k"
  shows "fl x = x"
proof (cases "x = 0")
  case True
  then show ?thesis by (simp add: fl_def)
next
  case False
  define E where "E = max (expo x) (- 1022)"
  have "expo x \<le> k + 52" using expo_le [OF False, of "k + 52"] assms(2) by (simp add: add.commute)
  then have Ek: "E - 52 \<le> k" using assms(3) by (simp add: E_def)
  define d where "d = nat (k - (E - 52))"
  have u: "ulp x = 2 powi (E - 52)" by (simp add: ulp_def E_def)
  have "(2::rat) powi k = 2 powi (int d + (E - 52))" using Ek by (simp add: d_def)
  also have "\<dots> = 2 ^ d * 2 powi (E - 52)" by (simp add: power_int_add)
  finally have k2: "(2::rat) powi k = 2 ^ d * ulp x" by (simp add: u)
  have "\<bar>x\<bar> = \<bar>rat_of_int m * 2 powi k\<bar>" using assms(1) by simp
  also have "\<dots> = of_int \<bar>m\<bar> * 2 powi k" by (simp add: abs_mult power_int_abs)
  also have "\<dots> = of_int \<bar>m\<bar> * (2 ^ d * ulp x)" by (simp only: k2)
  finally have "\<bar>x\<bar> = of_int \<bar>m\<bar> * (2 ^ d * ulp x)" .
  then have q: "\<bar>x\<bar> / ulp x = of_int (\<bar>m\<bar> * 2 ^ d)"
    using ulp_pos [of x] by simp
  have "\<bar>fl x\<bar> = of_int (\<bar>m\<bar> * 2 ^ d) * ulp x"
    by (simp only: fl_abs q round_even_int)
  also have "\<dots> = \<bar>x\<bar>" using q ulp_pos [of x] by (simp add: field_simps)
  finally have "\<bar>fl x\<bar> = \<bar>x\<bar>" .
  then show ?thesis by (subst fl_sgn) (simp add: sgn_if split: if_splits)
qed

lemma fl_grid:
  assumes "fl x = x"
  shows "\<exists>n. \<bar>x\<bar> = of_int n * ulp x"
  using fl_abs [of x] assms by auto

lemma emax_mono:
  assumes "x \<noteq> 0" and "\<bar>x\<bar> \<le> \<bar>c\<bar>"
  shows "expo x \<le> expo c"
proof -
  have c: "c \<noteq> 0" using assms by auto
  from expo_bounds [OF c] have "\<bar>c\<bar> < 2 powi (expo c + 1)" by simp
  with assms(2) have "\<bar>x\<bar> < 2 powi (expo c + 1)" by linarith
  then show ?thesis by (rule expo_le [OF assms(1)])
qed

lemma fl_bound:
  assumes "fl c = c" and "0 < c" and "\<bar>x\<bar> \<le> c"
  shows "\<bar>fl x\<bar> \<le> c"
proof (cases "x = 0")
  case True
  then show ?thesis using assms(2) by (simp add: fl_def)
next
  case False
  define ex where "ex = max (expo x) (- 1022)"
  define ec where "ec = max (expo c) (- 1022)"
  have ux: "ulp x = 2 powi (ex - 52)" by (simp add: ulp_def ex_def)
  have uc: "ulp c = 2 powi (ec - 52)" by (simp add: ulp_def ec_def)
  have "expo x \<le> expo c" using emax_mono [OF False, of c] assms(2,3) by simp
  then have le: "ex \<le> ec" by (simp add: ex_def ec_def)
  let ?N = "round_even (\<bar>x\<bar> / ulp x)"
  show ?thesis
  proof (cases "ex = ec")
    case True
    then have same: "ulp x = ulp c" by (simp add: ux uc)
    from fl_grid [OF assms(1)] obtain n where n: "c = of_int n * ulp c"
      using assms(2) by auto
    have "\<bar>x\<bar> \<le> of_int n * ulp x" using assms(3) n same by simp
    then have "\<bar>x\<bar> / ulp x \<le> of_int n"
      using ulp_pos [of x] by (simp add: pos_divide_le_eq)
    then have "?N \<le> n" by (rule round_even_le)
    then have "rat_of_int ?N * ulp x \<le> of_int n * ulp x"
      using ulp_pos [of x] by (intro mult_right_mono) simp_all
    then show ?thesis unfolding fl_abs using n same by simp
  next
    case False
    with le have lt: "ex < ec" by simp
    then have ecx: "ec = expo c" and "ex + 1 \<le> expo c" by (auto simp: ex_def ec_def)
    have c0: "c \<noteq> 0" using assms(2) by simp
    from expo_bounds [OF c0] have cl: "2 powi (expo c) \<le> c" using assms(2) by simp
    have xb: "\<bar>x\<bar> < 2 powi (ex + 1)"
    proof -
      from expo_bounds [OF \<open>x \<noteq> 0\<close>] have "\<bar>x\<bar> < 2 powi (expo x + 1)" by simp
      moreover have "(2::rat) powi (expo x + 1) \<le> 2 powi (ex + 1)"
        by (intro power_int_increasing) (simp_all add: ex_def)
      ultimately show ?thesis by linarith
    qed
    have p: "(2::rat) powi (ex + 1) = 2 ^ 53 * ulp x"
    proof -
      have "ex + 1 = 53 + (ex - 52)" by simp
      then have "(2::rat) powi (ex + 1) = 2 powi (53 + (ex - 52))" by (simp only:)
      also have "\<dots> = 2 powi 53 * 2 powi (ex - 52)" by (rule power_int_add) simp
      finally show ?thesis by (simp add: ux)
    qed
    have "\<bar>x\<bar> / ulp x \<le> of_int (2 ^ 53)"
      using xb ulp_pos [of x] unfolding p by (simp add: field_simps)
    then have "?N \<le> 2 ^ 53" by (rule round_even_le)
    then have "rat_of_int ?N \<le> 2 ^ 53"
      by (metis of_int_le_iff of_int_numeral of_int_power)
    then have "rat_of_int ?N * ulp x \<le> 2 ^ 53 * ulp x"
      using ulp_pos [of x] by (intro mult_right_mono) simp_all
    also have "\<dots> = 2 powi (ex + 1)" by (simp add: p)
    also have "\<dots> \<le> 2 powi (expo c)"
      using \<open>ex + 1 \<le> expo c\<close> by (intro power_int_increasing) simp_all
    also have "\<dots> \<le> c" by (rule cl)
    finally show ?thesis unfolding fl_abs .
  qed
qed

lemma fl_int_small:
  assumes "\<bar>m\<bar> < 2 ^ 53"
  shows "fl (of_int m) = of_int m"
proof -
  have "\<bar>rat_of_int m\<bar> < 2 ^ 53"
    using assms by (metis of_int_abs of_int_less_iff of_int_numeral of_int_power)
  then show ?thesis
    using fl_exact [of "of_int m" m 0] by simp
qed

lemma fl_180 [simp]: "fl 180 = 180" "fl (- 180) = - 180" "fl 0 = 0"
  using fl_int_small [of 180] fl_int_small [of "- 180"] by (simp_all add: fl_def)

lemma fl_le_180: "x \<le> 180 \<Longrightarrow> fl x \<le> 180"
proof (cases "x \<le> 0")
  case True
  then show ?thesis using fl_nonpos [of x] by simp
next
  case False
  assume "x \<le> 180"
  with False have "\<bar>x\<bar> \<le> 180" by simp
  then have "\<bar>fl x\<bar> \<le> 180" by (intro fl_bound) simp_all
  then show ?thesis by simp
qed

lemma fl_ge_m180: "- 180 \<le> x \<Longrightarrow> - 180 \<le> fl x"
proof (cases "0 \<le> x")
  case True
  then show ?thesis using fl_nonneg [of x] by simp
next
  case False
  assume "- 180 \<le> x"
  with False have "\<bar>x\<bar> \<le> 180" by simp
  then have "\<bar>fl x\<bar> \<le> 180" by (intro fl_bound) simp_all
  then show ?thesis by simp
qed

lemma expo_minus: "expo (- x) = expo x"
  by (simp add: expo_def)

lemma fl_minus: "fl (- x) = - fl x"
  by (simp add: fl_def ulp_def expo_minus)

lemma fl_err_61:
  assumes "\<bar>x\<bar> < 2 ^ 61"
  shows "\<bar>fl x - x\<bar> \<le> 128"
proof (cases "x = 0")
  case True
  then show ?thesis by (simp add: fl_def)
next
  case False
  have "expo x \<le> 60" using expo_le [OF False, of 60] assms by simp
  then have "max (expo x) (- 1022) - 52 \<le> 8" by simp
  then have "(2::rat) powi (max (expo x) (- 1022) - 52) \<le> 2 powi 8"
    by (intro power_int_increasing) simp_all
  then have "ulp x \<le> 256" by (simp add: ulp_def)
  with fl_err [of x] show ?thesis by linarith
qed

lemma rnd_Fin: "\<bar>fl x\<bar> < 2 ^ 1024 \<Longrightarrow> rnd x = Fin (fl x)"
  by (simp add: rnd_def Let_def abs_less_iff not_le)

lemma fl_on_grid:
  assumes "fl x = x" and "2 powi e \<le> \<bar>x\<bar>" and "- 1022 \<le> e"
  shows "\<exists>n. x = of_int n * 2 powi (e - 52)"
proof -
  have ge: "e \<le> expo x" using assms(2) by (rule expo_ge)
  then have u: "ulp x = 2 powi (expo x - 52)" using assms(3) by (simp add: ulp_def)
  define d where "d = nat (expo x - e)"
  have "(2::rat) powi (expo x - 52) = 2 powi (int d + (e - 52))" using ge by (simp add: d_def)
  also have "\<dots> = 2 ^ d * 2 powi (e - 52)" by (simp add: power_int_add)
  finally have u2: "ulp x = 2 ^ d * 2 powi (e - 52)" by (simp add: u)
  from fl_grid [OF assms(1)] obtain N where N: "\<bar>x\<bar> = of_int N * ulp x" by blast
  have ax: "\<bar>x\<bar> = of_int N * (2 ^ d * 2 powi (e - 52))" using N unfolding u2 .
  have "x = sgn x * \<bar>x\<bar>" by (simp add: sgn_if)
  then have x: "x = sgn x * (of_int N * (2 ^ d * 2 powi (e - 52)))" using ax by simp
  have nz: "x \<noteq> 0" using assms(2) by (rule pow2_le_abs_nz)
  show ?thesis
  proof (cases "0 \<le> x")
    case True
    then have "x = of_int (N * 2 ^ d) * 2 powi (e - 52)"
      using x nz by (simp add: sgn_if split: if_splits)
    then show ?thesis by blast
  next
    case False
    then have "x = of_int (- (N * 2 ^ d)) * 2 powi (e - 52)"
      using x by (simp add: sgn_if split: if_splits)
    then show ?thesis by blast
  qed
qed

lemma grid_shift:
  assumes "(x::rat) = of_int n * 2 powi k" and "k \<le> 0"
  shows "\<exists>m. x + of_int a = of_int m * 2 powi k"
proof -
  define j where "j = nat (- k)"
  have kj: "k = - int j" using assms(2) by (simp add: j_def)
  have one: "(2::rat) powi k * 2 ^ nat (- k) = 1"
    unfolding kj by (simp add: power_int_minus)
  have "x + of_int a = of_int n * 2 powi k + of_int a * (2 powi k * 2 ^ nat (- k))"
    by (simp only: one assms(1))
  also have "\<dots> = of_int (n + a * 2 ^ nat (- k)) * 2 powi k"
    by (simp add: algebra_simps)
  finally show ?thesis by blast
qed

lemma fl_sub_exact:
  assumes "fl M = M" and "180 < M" and "M \<le> 540"
  shows "fl (M - 180) = M - 180" and "fl (- 180 + (M - 180)) = M - 360"
proof -
  have g45: "\<exists>n. M = of_int n * 2 powi (- 45)"
    using fl_on_grid [OF assms(1), of 7] assms(2) by simp
  then obtain n where n: "M = of_int n * 2 powi (- 45)" by blast
  from grid_shift [OF n, of "- 360"] obtain m2 where
    m2: "M - 360 = of_int m2 * 2 powi (- 45)" by auto
  have "fl (M - 360) = M - 360"
    using assms(2,3) by (intro fl_exact [OF m2]) simp_all
  then show "fl (- 180 + (M - 180)) = M - 360" by (simp add: algebra_simps)
  show "fl (M - 180) = M - 180"
  proof (cases "M < 436")
    case True
    from grid_shift [OF n, of "- 180"] obtain m1 where
      m1: "M - 180 = of_int m1 * 2 powi (- 45)" by auto
    show ?thesis using assms(2) True by (intro fl_exact [OF m1]) simp_all
  next
    case False
    have "\<exists>n. M = of_int n * 2 powi (- 44)"
      using fl_on_grid [OF assms(1), of 8] False by simp
    then obtain n' where n': "M = of_int n' * 2 powi (- 44)" by blast
    from grid_shift [OF n', of "- 180"] obtain m1 where
      m1: "M - 180 = of_int m1 * 2 powi (- 44)" by auto
    show ?thesis using assms(2,3) by (intro fl_exact [OF m1]) simp_all
  qed
qed

section \<open>Dateline splitting: the recursion\<close>

lemma convert_base:
  assumes "\<not> js_gt mx (Fin 180)" and "\<not> js_lt mn (Fin (- 180))"
  shows "convertMapExtentToEnvelope \<lparr>maxLat = a, maxLon = mx, minLat = b, minLon = mn\<rparr> =
           Some (envelope mn a mx b)"
  by (subst convertMapExtentToEnvelope.simps) (simp add: assms)

lemma convert_east:
  assumes "js_gt mx (Fin 180)" and "\<not> js_lt mn (Fin (- 180))"
  shows "convertMapExtentToEnvelope \<lparr>maxLat = a, maxLon = mx, minLat = b, minLon = mn\<rparr> =
     do {
       x \<leftarrow> convertMapExtentToEnvelope \<lparr>maxLat = a, maxLon = Fin 180, minLat = b, minLon = mn\<rparr>;
       y \<leftarrow> convertMapExtentToEnvelope
         \<lparr>maxLat = a, maxLon = js_add (Fin (- 180)) (js_sub mx (Fin 180)), minLat = b,
          minLon = Fin (- 180)\<rparr>;
       Some (Arr [x, y])
     }"
  by (subst convertMapExtentToEnvelope.simps) (simp add: assms)

lemma convert_west:
  assumes "\<not> js_gt mx (Fin 180)" and "js_lt mn (Fin (- 180))"
  shows "convertMapExtentToEnvelope \<lparr>maxLat = a, maxLon = mx, minLat = b, minLon = mn\<rparr> =
     do {
       x \<leftarrow> convertMapExtentToEnvelope
         \<lparr>maxLat = a, maxLon = Fin 180, minLat = b,
          minLon = js_sub (Fin 180) (js_sub (js_abs mn) (Fin 180))\<rparr>;
       y \<leftarrow> convertMapExtentToEnvelope \<lparr>maxLat = a, maxLon = mx, minLat = b, minLon = Fin (- 180)\<rparr>;
       Some (Arr [x, y])
     }"
  by (subst convertMapExtentToEnvelope.simps) (simp add: assms)

lemma convert_both:
  assumes "js_gt mx (Fin 180)" and "js_lt mn (Fin (- 180))"
  shows "convertMapExtentToEnvelope \<lparr>maxLat = a, maxLon = mx, minLat = b, minLon = mn\<rparr> =
     convertMapExtentToEnvelope \<lparr>maxLat = a, maxLon = Fin 180, minLat = b, minLon = Fin (- 180)\<rparr>"
  by (subst convertMapExtentToEnvelope.simps) (simp add: assms)

lemma convert_east_first:
  assumes "\<not> js_lt mn (Fin (- 180))"
  shows "convertMapExtentToEnvelope \<lparr>maxLat = a, maxLon = Fin 180, minLat = b, minLon = mn\<rparr> =
           Some (envelope mn a (Fin 180) b)"
  by (rule convert_base) (simp_all add: assms js_gt_def)

lemma convert_west_second:
  assumes "\<not> js_gt mx (Fin 180)"
  shows "convertMapExtentToEnvelope \<lparr>maxLat = a, maxLon = mx, minLat = b, minLon = Fin (- 180)\<rparr> =
           Some (envelope (Fin (- 180)) a mx b)"
  by (rule convert_base) (simp_all add: assms)

lemma js_sub_Fin: "js_sub (Fin a) (Fin b) = rnd (a - b)"
  by (simp add: js_sub_def)

lemma rnd_le: "fl x \<le> c \<Longrightarrow> c < 2 ^ 1024 \<Longrightarrow> js_le (rnd x) (Fin c)"
  by (auto simp: rnd_def Let_def js_le_def)

lemma rnd_ge: "c \<le> fl x \<Longrightarrow> - (2 ^ 1024) < c \<Longrightarrow> js_le (Fin c) (rnd x)"
  by (auto simp: rnd_def Let_def js_le_def)

lemma rnd_nonneg: "0 \<le> x \<Longrightarrow> rnd x = PInf \<or> rnd x = Fin (fl x) \<and> 0 \<le> fl x"
  using fl_nonneg [of x] by (auto simp: rnd_def Let_def)

lemma east_step_ge:
  assumes "js_gt mx (Fin 180)"
  shows "js_ge (js_add (Fin (- 180)) (js_sub mx (Fin 180))) (Fin (- 180))"
proof (cases mx)
  case (Fin M)
  with assms have M: "180 < M" by (simp add: js_gt_def)
  then have "0 \<le> M - 180" by simp
  from rnd_nonneg [OF this] show ?thesis
  proof
    assume "rnd (M - 180) = PInf"
    then show ?thesis by (simp add: Fin js_sub_Fin js_ge_def js_le_def)
  next
    assume t: "rnd (M - 180) = Fin (fl (M - 180)) \<and> 0 \<le> fl (M - 180)"
    then have "- 180 \<le> fl (- 180 + fl (M - 180))" by (intro fl_ge_m180) simp
    then have "js_le (Fin (- 180)) (rnd (- 180 + fl (M - 180)))" by (rule rnd_ge) simp
    then show ?thesis using t by (simp add: Fin js_sub_Fin js_ge_def)
  qed
next
  case PInf
  then show ?thesis by (simp add: js_sub_def js_ge_def js_le_def)
next
  case NInf
  with assms show ?thesis by (simp add: js_gt_def)
next
  case NaN
  with assms show ?thesis by (simp add: js_gt_def)
qed

lemma west_step_le:
  assumes "js_lt mn (Fin (- 180))"
  shows "js_le (js_sub (Fin 180) (js_sub (js_abs mn) (Fin 180))) (Fin 180)"
proof (cases mn)
  case (Fin m)
  with assms have m: "m < - 180" by simp
  then have "0 \<le> \<bar>m\<bar> - 180" by simp
  from rnd_nonneg [OF this] show ?thesis
  proof
    assume "rnd (\<bar>m\<bar> - 180) = PInf"
    then show ?thesis by (simp add: Fin js_sub_Fin) (simp add: js_sub_def js_le_def)
  next
    assume t: "rnd (\<bar>m\<bar> - 180) = Fin (fl (\<bar>m\<bar> - 180)) \<and> 0 \<le> fl (\<bar>m\<bar> - 180)"
    then have "fl (180 - fl (\<bar>m\<bar> - 180)) \<le> 180" by (intro fl_le_180) simp
    then have "js_le (rnd (180 - fl (\<bar>m\<bar> - 180))) (Fin 180)" by (rule rnd_le) simp
    then show ?thesis using t by (simp add: Fin js_sub_Fin)
  qed
next
  case PInf
  with assms show ?thesis by simp
next
  case NInf
  then show ?thesis by (simp add: js_sub_def js_le_def)
next
  case NaN
  with assms show ?thesis by simp
qed

lemma fl_near:
  assumes "\<bar>x\<bar> < 2 ^ 61"
  shows "x - 128 \<le> fl x" and "fl x \<le> x + 128" and "rnd x = Fin (fl x)"
proof -
  from fl_err_61 [OF assms] show a: "x - 128 \<le> fl x" and b: "fl x \<le> x + 128"
    by linarith+
  have "\<bar>fl x\<bar> \<le> 2 ^ 61 + 128" using a b assms by linarith
  moreover have "(2::rat) ^ 61 + 128 < 2 ^ 1024" by simp
  ultimately have "\<bar>fl x\<bar> < 2 ^ 1024" by linarith
  then show "rnd x = Fin (fl x)" by (rule rnd_Fin)
qed

lemma east_step_fin:
  assumes "180 < M" and "M \<le> 2 ^ 61"
  shows "\<exists>M'. js_add (Fin (- 180)) (js_sub (Fin M) (Fin 180)) = Fin M' \<and> M' \<le> M - 104"
proof -
  define t where "t = fl (M - 180)"
  have "\<bar>M - 180\<bar> < 2 ^ 61" using assms by simp
  from fl_near [OF this] have t: "M - 180 - 128 \<le> t" "t \<le> M - 180 + 128"
    "rnd (M - 180) = Fin t" by (simp_all add: t_def)
  have "\<bar>t - 180\<bar> < 2 ^ 61" using assms t(1,2) by (simp add: abs_less_iff)
  from fl_near [OF this] have u: "fl (t - 180) \<le> t - 180 + 128"
    "rnd (t - 180) = Fin (fl (t - 180))" by simp_all
  have "js_add (Fin (- 180)) (js_sub (Fin M) (Fin 180)) = Fin (fl (t - 180))"
    by (simp add: js_sub_Fin t(3) u(2))
  moreover have "fl (t - 180) \<le> M - 104" using t(2) u(1) by linarith
  ultimately show ?thesis by blast
qed

lemma west_step_fin:
  assumes "m < - 180" and "- (2 ^ 61) \<le> m"
  shows "\<exists>m'. js_sub (Fin 180) (js_sub (js_abs (Fin m)) (Fin 180)) = Fin m' \<and> m + 104 \<le> m'"
proof -
  define t where "t = fl (\<bar>m\<bar> - 180)"
  have "\<bar>\<bar>m\<bar> - 180\<bar> < 2 ^ 61" using assms by simp
  from fl_near [OF this] have t: "\<bar>m\<bar> - 180 - 128 \<le> t" "t \<le> \<bar>m\<bar> - 180 + 128"
    "rnd (\<bar>m\<bar> - 180) = Fin t" by (simp_all add: t_def)
  have "\<bar>180 - t\<bar> < 2 ^ 61" using assms t(1,2) by (simp add: abs_less_iff)
  from fl_near [OF this] have u: "180 - t - 128 \<le> fl (180 - t)"
    "rnd (180 - t) = Fin (fl (180 - t))" by simp_all
  have "js_sub (Fin 180) (js_sub (js_abs (Fin m)) (Fin 180)) = Fin (fl (180 - t))"
    by (simp add: js_sub_Fin t(3) u(2))
  moreover have "m + 104 \<le> fl (180 - t)" using t(2) u(1) assms(1) by linarith
  ultimately show ?thesis by blast
qed

lemma convert_east_chain:
  assumes "M \<le> 2 ^ 61" and "\<not> js_lt mn (Fin (- 180))"
  shows "\<exists>out. convertMapExtentToEnvelope
           \<lparr>maxLat = a, maxLon = Fin M, minLat = b, minLon = mn\<rparr> = Some out"
  using assms
proof (induction "nat \<lfloor>M\<rfloor>" arbitrary: M mn rule: less_induct)
  case less
  show ?case
  proof (cases "180 < M")
    case False
    then have "\<not> js_gt (Fin M) (Fin 180)" by (simp add: js_gt_def)
    from convert_base [OF this less.prems(2)] show ?thesis by blast
  next
    case True
    from east_step_fin [OF True less.prems(1)] obtain M' where
      M': "js_add (Fin (- 180)) (js_sub (Fin M) (Fin 180)) = Fin M'" "M' \<le> M - 104"
      by blast
    have "\<lfloor>M'\<rfloor> \<le> \<lfloor>M - 104\<rfloor>" using M'(2) by (rule floor_mono)
    moreover have "\<lfloor>M - 104\<rfloor> = \<lfloor>M\<rfloor> - 104" by simp
    moreover have "180 \<le> \<lfloor>M\<rfloor>" using True by (simp add: le_floor_iff)
    ultimately have d: "nat \<lfloor>M'\<rfloor> < nat \<lfloor>M\<rfloor>" by linarith
    have "M' \<le> 2 ^ 61" using M'(2) less.prems(1) by linarith
    from less.hyps [OF d this, of "Fin (- 180)"] obtain out2 where
      o2: "convertMapExtentToEnvelope
             \<lparr>maxLat = a, maxLon = Fin M', minLat = b, minLon = Fin (- 180)\<rparr> = Some out2"
      by auto
    have g: "js_gt (Fin M) (Fin 180)" using True by (simp add: js_gt_def)
    show ?thesis
      unfolding convert_east [OF g less.prems(2)] convert_east_first [OF less.prems(2)]
        M'(1) o2
      by simp
  qed
qed

lemma convert_west_chain:
  assumes "- (2 ^ 61) \<le> m" and "\<not> js_gt mx (Fin 180)"
  shows "\<exists>out. convertMapExtentToEnvelope
           \<lparr>maxLat = a, maxLon = mx, minLat = b, minLon = Fin m\<rparr> = Some out"
  using assms
proof (induction "nat \<lfloor>- m\<rfloor>" arbitrary: m mx rule: less_induct)
  case less
  show ?case
  proof (cases "m < - 180")
    case False
    then have "\<not> js_lt (Fin m) (Fin (- 180))" by simp
    from convert_base [OF less.prems(2) this] show ?thesis by blast
  next
    case True
    from west_step_fin [OF True less.prems(1)] obtain m' where
      m': "js_sub (Fin 180) (js_sub (js_abs (Fin m)) (Fin 180)) = Fin m'" "m + 104 \<le> m'"
      by blast
    have "\<lfloor>- m'\<rfloor> \<le> \<lfloor>- m - 104\<rfloor>" using m'(2) by (intro floor_mono) simp
    moreover have "\<lfloor>- m - 104\<rfloor> = \<lfloor>- m\<rfloor> - 104" by simp
    moreover have "180 \<le> \<lfloor>- m\<rfloor>" using True by (simp add: le_floor_iff)
    ultimately have d: "nat \<lfloor>- m'\<rfloor> < nat \<lfloor>- m\<rfloor>" by linarith
    have b: "- (2 ^ 61) \<le> m'" using m'(2) less.prems(1) by linarith
    have n: "\<not> js_gt (Fin 180) (Fin 180)" by (simp add: js_gt_def)
    from less.hyps [OF d b n] obtain out1 where
      o1: "convertMapExtentToEnvelope
             \<lparr>maxLat = a, maxLon = Fin 180, minLat = b, minLon = Fin m'\<rparr> = Some out1"
      by auto
    have l: "js_lt (Fin m) (Fin (- 180))" using True by simp
    show ?thesis
      unfolding convert_west [OF less.prems(2) l] convert_west_second [OF less.prems(2)]
        m'(1) o1
      by simp
  qed
qed

lemma convert_terminates_aux:
  assumes "M \<le> 2 ^ 61 \<or> m < - 180" and "- (2 ^ 61) \<le> m \<or> 180 < M"
  shows "\<exists>out. convertMapExtentToEnvelope
           \<lparr>maxLat = a, maxLon = Fin M, minLat = b, minLon = Fin m\<rparr> = Some out"
proof (cases "180 < M")
  case True
  then have g: "js_gt (Fin M) (Fin 180)" by (simp add: js_gt_def)
  show ?thesis
  proof (cases "m < - 180")
    case True
    then have l: "js_lt (Fin m) (Fin (- 180))" by simp
    have "convertMapExtentToEnvelope
            \<lparr>maxLat = a, maxLon = Fin 180, minLat = b, minLon = Fin (- 180)\<rparr> =
          Some (envelope (Fin (- 180)) a (Fin 180) b)"
      by (rule convert_base) (simp_all add: js_gt_def)
    then show ?thesis by (simp add: convert_both [OF g l])
  next
    case False
    then have n: "\<not> js_lt (Fin m) (Fin (- 180))" by simp
    from False assms(1) have "M \<le> 2 ^ 61" by blast
    from convert_east_chain [OF this n] show ?thesis .
  qed
next
  case False
  then have n: "\<not> js_gt (Fin M) (Fin 180)" by (simp add: js_gt_def)
  from False assms(2) have "- (2 ^ 61) \<le> m" by blast
  from convert_west_chain [OF this n] show ?thesis .
qed

lemma fl_stuck:
  assumes "fl M = M" and "2 ^ 61 < M"
  shows "fl (M - 180) = M"
proof -
  have "\<exists>n. M = of_int n * 2 powi (61 - 52)"
    using assms by (intro fl_on_grid) simp_all
  then obtain n where n: "M = of_int n * 512" by auto
  have "(2::rat) ^ 61 = of_int (2 ^ 52) * 512" by simp
  with assms(2) n have "rat_of_int (2 ^ 52) * 512 < of_int n * 512" by simp
  then have "rat_of_int (2 ^ 52) < of_int n" by simp
  then have "(2::int) ^ 52 < n" by (simp only: of_int_less_iff)
  then have "2 ^ 52 + 1 \<le> n" by simp
  then have "rat_of_int (2 ^ 52 + 1) \<le> of_int n" by (simp only: of_int_le_iff)
  then have big: "2 ^ 61 + 512 \<le> M" unfolding n by simp
  define x where "x = M - 180"
  have x: "2 ^ 61 \<le> x" "0 < x" "x \<le> M" using big by (simp_all add: x_def)
  have "2 powi 61 \<le> \<bar>x\<bar>" using x by simp
  then have E: "61 \<le> expo x" by (rule expo_ge)
  have xn: "x \<noteq> 0" using x by simp
  from expo_bounds [OF xn] have eb: "2 powi (expo x) \<le> \<bar>x\<bar>" by simp
  then have "2 powi (expo x) \<le> \<bar>M\<bar>" using x by simp
  from fl_on_grid [OF assms(1) this] E obtain k where k: "M = of_int k * 2 powi (expo x - 52)"
    by auto
  have u: "ulp x = 2 powi (expo x - 52)" using E by (simp add: ulp_def)
  have "(2::rat) powi 9 \<le> 2 powi (expo x - 52)"
    using E by (intro power_int_increasing) simp_all
  then have u512: "512 \<le> ulp x" by (simp add: u)
  have up: "0 < ulp x" by (rule ulp_pos)
  have Mk: "M = of_int k * ulp x" using k by (simp only: u)
  then have "M = of_int k * ulp x" .
  moreover have "x = M - 180" by (simp add: x_def)
  ultimately have "x = of_int k * ulp x - 180" by simp
  then have "x / ulp x = (of_int k * ulp x - 180) / ulp x" by simp
  also have "\<dots> = of_int k - 180 / ulp x" using up by (simp add: diff_divide_distrib)
  finally have "x / ulp x - of_int k = - 180 / ulp x" by simp
  moreover have "\<bar>x\<bar> = x" using x by simp
  ultimately have "\<bar>x\<bar> / ulp x - of_int k = - 180 / ulp x" by simp
  moreover have "\<bar>- 180 / ulp x\<bar> < 1 / 2"
    using u512 up by (simp add: field_simps abs_if)
  ultimately have "\<bar>\<bar>x\<bar> / ulp x - of_int k\<bar> < 1 / 2" by simp
  then have "round_even (\<bar>x\<bar> / ulp x) = k" by (rule round_even_near)
  then have "fl x = of_int k * ulp x" using x by (simp add: fl_def)
  then have "fl x = M" by (simp only: Mk [symmetric])
  then show ?thesis unfolding x_def .
qed

lemma is_double_2_70: "is_double (2 ^ 70)"
  using fl_exact [of "2 ^ 70" 1 70] by (simp add: is_double_def)

lemma stuck_east_step:
  assumes "is_double M" and "2 ^ 61 < M"
  shows "js_add (Fin (- 180)) (js_sub (Fin M) (Fin 180)) = Fin M"
proof -
  have f: "fl M = M" and b: "\<bar>M\<bar> < 2 ^ 1024" using assms(1) by (simp_all add: is_double_def)
  note s = fl_stuck [OF f assms(2)]
  have r: "rnd (M - 180) = Fin M" using rnd_Fin [of "M - 180"] b by (simp add: s)
  show ?thesis using r by (simp add: js_sub_Fin)
qed

lemma stuck_west_step:
  assumes "is_double m" and "m < - (2 ^ 61)"
  shows "js_sub (Fin 180) (js_sub (js_abs (Fin m)) (Fin 180)) = Fin m"
proof -
  have f: "fl m = m" and b: "\<bar>m\<bar> < 2 ^ 1024" using assms(1) by (simp_all add: is_double_def)
  have a: "\<bar>m\<bar> = - m" using assms(2) by simp
  have b': "\<bar>- m\<bar> < 2 ^ 1024" using b by simp
  have f': "fl (- m) = - m" by (simp add: fl_minus f)
  have "2 ^ 61 < - m" using assms(2) by simp
  note s = fl_stuck [OF f' this]
  note r = rnd_Fin [of "- m - 180", unfolded s, OF b']
  have e: "180 - (- m) = - (- m - 180)" by simp
  have s': "fl (180 - (- m)) = m" unfolding e fl_minus s by simp
  note r' = rnd_Fin [of "180 - (- m)", unfolded s', OF b]
  show ?thesis unfolding js_abs.simps a js_sub_Fin r r' by simp
qed

lemma convert_stuck_east:
  assumes "convertMapExtentToEnvelope ext = Some out"
  shows "\<not> (\<exists>M. maxLon ext = Fin M \<and> is_double M \<and> 2 ^ 61 < M
              \<and> \<not> js_lt (minLon ext) (Fin (- 180)))"
proof (rule convertMapExtentToEnvelope.raw_induct
    [where P = "\<lambda>ext out. \<not> (\<exists>M. maxLon ext = Fin M \<and> is_double M \<and> 2 ^ 61 < M
              \<and> \<not> js_lt (minLon ext) (Fin (- 180)))",
      OF _ assms], goal_cases)
  case (1 f ext out)
  show ?case
  proof
    assume "\<exists>M. maxLon ext = Fin M \<and> is_double M \<and> 2 ^ 61 < M
              \<and> \<not> js_lt (minLon ext) (Fin (- 180))"
    then obtain M where s: "maxLon ext = Fin M" "is_double M" "2 ^ 61 < M"
      "\<not> js_lt (minLon ext) (Fin (- 180))" by blast
    have "(180::rat) < 2 ^ 61" by simp
    with s(3) have "180 < M" by linarith
    then have g: "js_gt (maxLon ext) (Fin 180)" by (simp add: s(1) js_gt_def)
    have m: "js_add (Fin (- 180)) (js_sub (maxLon ext) (Fin 180)) = Fin M"
      using stuck_east_step [OF s(2,3)] by (simp add: s(1))
    from 1(2) obtain b where
      "f \<lparr>maxLat = maxLat ext, maxLon = Fin M, minLat = minLat ext, minLon = Fin (- 180)\<rparr> = Some b"
      unfolding Let_def m using s(4) g by (auto simp: bind_eq_Some_conv)
    from 1(1) [OF this] show False using s(2,3) by simp
  qed
qed

lemma convert_stuck_west:
  assumes "convertMapExtentToEnvelope ext = Some out"
  shows "\<not> (\<exists>m. minLon ext = Fin m \<and> is_double m \<and> m < - (2 ^ 61)
              \<and> \<not> js_gt (maxLon ext) (Fin 180))"
proof (rule convertMapExtentToEnvelope.raw_induct
    [where P = "\<lambda>ext out. \<not> (\<exists>m. minLon ext = Fin m \<and> is_double m \<and> m < - (2 ^ 61)
              \<and> \<not> js_gt (maxLon ext) (Fin 180))",
      OF _ assms], goal_cases)
  case (1 f ext out)
  show ?case
  proof
    assume "\<exists>m. minLon ext = Fin m \<and> is_double m \<and> m < - (2 ^ 61)
              \<and> \<not> js_gt (maxLon ext) (Fin 180)"
    then obtain m where s: "minLon ext = Fin m" "is_double m" "m < - (2 ^ 61)"
      "\<not> js_gt (maxLon ext) (Fin 180)" by blast
    have "- (2 ^ 61) < (- 180::rat)" by simp
    with s(3) have "m < - 180" by linarith
    then have l: "js_lt (minLon ext) (Fin (- 180))" by (simp add: s(1))
    have m: "js_sub (Fin 180) (js_sub (js_abs (minLon ext)) (Fin 180)) = Fin m"
      using stuck_west_step [OF s(2,3)] by (simp add: s(1))
    from 1(2) obtain a where
      "f \<lparr>maxLat = maxLat ext, maxLon = Fin 180, minLat = minLat ext, minLon = Fin m\<rparr> = Some a"
      unfolding Let_def m using s(4) l by (auto simp: bind_eq_Some_conv)
    from 1(1) [OF this] show False using s(2,3) by (simp add: js_gt_def)
  qed
qed

text \<open>
  C5, as stated, fails: at \<open>maxLon = 2^70\<close> the subtraction \<open>maxLon - 180\<close> rounds back to
  \<open>2^70\<close>, and so does \<open>-180 + 2^70\<close>, so the second recursive call receives the same
  \<open>maxLon\<close> again and the base case is never reached.
\<close>

theorem convertMapExtentToEnvelope_diverges_counterexample:
  "is_double (2 ^ 70)
   \<and> convertMapExtentToEnvelope
       \<lparr>maxLat = Fin 10, maxLon = Fin (2 ^ 70), minLat = Fin (- 10), minLon = Fin 0\<rparr> = None"
proof -
  let ?e = "\<lparr>maxLat = Fin 10, maxLon = Fin (2 ^ 70), minLat = Fin (- 10), minLon = Fin 0\<rparr>"
  have "convertMapExtentToEnvelope ?e = None"
  proof (cases "convertMapExtentToEnvelope ?e")
    case None
    then show ?thesis .
  next
    case (Some out)
    from convert_stuck_east [OF this] is_double_2_70 show ?thesis by simp
  qed
  then show ?thesis using is_double_2_70 by simp
qed

lemma is_double_int: "\<bar>m\<bar> < 2 ^ 53 \<Longrightarrow> is_double (of_int m)"
proof -
  assume a: "\<bar>m\<bar> < 2 ^ 53"
  then have "\<bar>rat_of_int m\<bar> < 2 ^ 53"
    by (metis of_int_abs of_int_less_iff of_int_numeral of_int_power)
  moreover have "(2::rat) ^ 53 < 2 ^ 1024" by simp
  ultimately have "\<bar>rat_of_int m\<bar> < 2 ^ 1024" by linarith
  then show ?thesis using fl_int_small [OF a] by (simp add: is_double_def)
qed

lemma is_double_2_61: "is_double (2 ^ 61)"
  using fl_exact [of "2 ^ 61" 1 61] by (simp add: is_double_def)

lemma is_double_next_2_61: "is_double (2 ^ 61 + 512)"
  using fl_exact [of "2 ^ 61 + 512" "2 ^ 52 + 1" 9] by (simp add: is_double_def)

text \<open>
  C5, amended. For every extent whose longitude bounds are doubles (the latitudes are
  arbitrary), the recursion of \<open>convertMapExtentToEnvelope\<close> terminates if and only if the
  extent is neither one with \<open>maxLon > 2^61\<close> and \<open>minLon >= -180\<close> nor one with
  \<open>minLon < -2^61\<close> and \<open>maxLon <= 180\<close>. Up to \<open>2^61\<close> each recursive call of a splitting
  branch moves the overflowing bound by at least 104 towards the range; beyond \<open>2^61\<close> the
  doubles are at least 512 apart, the two subtractions of 180 round back, and the
  recursive call receives the same bound again.
\<close>

theorem convertMapExtentToEnvelope_terminates:
  assumes "maxLon ext = Fin M" and "minLon ext = Fin m"
    and "is_double M" and "is_double m"
  shows "(\<exists>out. convertMapExtentToEnvelope ext = Some out) \<longleftrightarrow>
         \<not> (2 ^ 61 < M \<and> - 180 \<le> m) \<and> \<not> (m < - (2 ^ 61) \<and> M \<le> 180)"
proof
  assume "\<exists>out. convertMapExtentToEnvelope ext = Some out"
  then obtain out where o: "convertMapExtentToEnvelope ext = Some out" by blast
  have 1: "\<not> (2 ^ 61 < M \<and> - 180 \<le> m)"
    using convert_stuck_east [OF o] assms by (auto simp: not_less)
  have 2: "\<not> (m < - (2 ^ 61) \<and> M \<le> 180)"
    using convert_stuck_west [OF o] assms by (auto simp: js_gt_def not_less)
  from 1 2 show "\<not> (2 ^ 61 < M \<and> - 180 \<le> m) \<and> \<not> (m < - (2 ^ 61) \<and> M \<le> 180)" ..
next
  assume r: "\<not> (2 ^ 61 < M \<and> - 180 \<le> m) \<and> \<not> (m < - (2 ^ 61) \<and> M \<le> 180)"
  have e: "ext = \<lparr>maxLat = maxLat ext, maxLon = Fin M, minLat = minLat ext, minLon = Fin m\<rparr>"
    using assms(1,2) by (cases ext) simp
  have "M \<le> 2 ^ 61 \<or> m < - 180" "- (2 ^ 61) \<le> m \<or> 180 < M" using r by linarith+
  from convert_terminates_aux [OF this, of "maxLat ext" "minLat ext"]
  show "\<exists>out. convertMapExtentToEnvelope ext = Some out"
    by (subst e) simp
qed

theorem convertMapExtentToEnvelope_terminates_witness:
  "is_double 1000 \<and> is_double 0 \<and> is_double (- 1000)
   \<and> is_double (2 ^ 61) \<and> is_double (2 ^ 61 + 512)
   \<and> (\<exists>out. convertMapExtentToEnvelope
         \<lparr>maxLat = Fin 10, maxLon = Fin 1000, minLat = Fin (- 10), minLon = Fin 0\<rparr> = Some out)
   \<and> (\<exists>out. convertMapExtentToEnvelope
         \<lparr>maxLat = Fin 10, maxLon = Fin 0, minLat = Fin (- 10), minLon = Fin (- 1000)\<rparr> =
         Some out)
   \<and> (\<exists>out. convertMapExtentToEnvelope
         \<lparr>maxLat = Fin 10, maxLon = Fin (2 ^ 61), minLat = Fin (- 10), minLon = Fin 0\<rparr> =
         Some out)
   \<and> convertMapExtentToEnvelope
         \<lparr>maxLat = Fin 10, maxLon = Fin (2 ^ 61 + 512), minLat = Fin (- 10), minLon = Fin 0\<rparr> =
       None"
proof -
  have d: "is_double 1000" "is_double 0" "is_double (- 1000)"
    using is_double_int [of 1000] is_double_int [of 0] is_double_int [of "- 1000"] by simp_all
  note p = is_double_2_61
  note q = is_double_next_2_61
  have 1: "\<exists>out. convertMapExtentToEnvelope
         \<lparr>maxLat = Fin 10, maxLon = Fin 1000, minLat = Fin (- 10), minLon = Fin 0\<rparr> = Some out"
    using convertMapExtentToEnvelope_terminates
      [of "\<lparr>maxLat = Fin 10, maxLon = Fin 1000, minLat = Fin (- 10), minLon = Fin 0\<rparr>" 1000 0,
        OF _ _ d(1) d(2)]
    by simp
  have 2: "\<exists>out. convertMapExtentToEnvelope
         \<lparr>maxLat = Fin 10, maxLon = Fin 0, minLat = Fin (- 10), minLon = Fin (- 1000)\<rparr> = Some out"
    using convertMapExtentToEnvelope_terminates
      [of "\<lparr>maxLat = Fin 10, maxLon = Fin 0, minLat = Fin (- 10), minLon = Fin (- 1000)\<rparr>"
        0 "- 1000", OF _ _ d(2) d(3)]
    by simp
  have 3: "\<exists>out. convertMapExtentToEnvelope
         \<lparr>maxLat = Fin 10, maxLon = Fin (2 ^ 61), minLat = Fin (- 10), minLon = Fin 0\<rparr> = Some out"
    using convertMapExtentToEnvelope_terminates
      [of "\<lparr>maxLat = Fin 10, maxLon = Fin (2 ^ 61), minLat = Fin (- 10), minLon = Fin 0\<rparr>"
        "2 ^ 61" 0, OF _ _ p d(2)]
    by simp
  have 4: "convertMapExtentToEnvelope
         \<lparr>maxLat = Fin 10, maxLon = Fin (2 ^ 61 + 512), minLat = Fin (- 10), minLon = Fin 0\<rparr> = None"
    using convertMapExtentToEnvelope_terminates
      [of "\<lparr>maxLat = Fin 10, maxLon = Fin (2 ^ 61 + 512), minLat = Fin (- 10), minLon = Fin 0\<rparr>"
        "2 ^ 61 + 512" 0, OF _ _ q d(2)]
    by simp
  show ?thesis using d p q 1 2 3 4 by blast
qed

section \<open>Dateline splitting: crossing east\<close>

lemma not_lt_of_ge: "js_ge x (Fin c) \<Longrightarrow> \<not> js_lt x (Fin c)"
  by (cases x) (auto simp: js_ge_def js_le_def)

lemma east_step_exact:
  assumes "is_double M" and "180 < M" and "M \<le> 540"
  shows "js_add (Fin (- 180)) (js_sub (Fin M) (Fin 180)) = Fin (M - 360)"
proof -
  have f: "fl M = M" using assms(1) by (simp add: is_double_def)
  note e = fl_sub_exact [OF f assms(2,3)]
  have "\<bar>fl (M - 180)\<bar> < 2 ^ 1024" unfolding e(1) using assms(2,3) by simp
  then have 1: "rnd (M - 180) = Fin (M - 180)" using rnd_Fin [of "M - 180"] e(1) by simp
  have "\<bar>fl (- 180 + (M - 180))\<bar> < 2 ^ 1024" unfolding e(2) using assms(2,3) by simp
  then have 2: "rnd (- 180 + (M - 180)) = Fin (M - 360)"
    using rnd_Fin [of "- 180 + (M - 180)"] e(2) by simp
  have "js_add (Fin (- 180)) (js_sub (Fin M) (Fin 180)) = js_add (Fin (- 180)) (Fin (M - 180))"
    by (simp only: js_sub_Fin 1)
  also have "\<dots> = rnd (- 180 + (M - 180))" by (simp only: js_add.simps)
  finally show ?thesis by (simp only: 2)
qed

text \<open>
  C2. For every extent with \<open>minLon\<close> in \<open>[-180,180]\<close> and \<open>maxLon\<close> a double in \<open>(180, 540]\<close>,
  the result is the two-element sequence of the envelope \<open>[[minLon,maxLat],[180,minLat]]\<close>
  and the envelope \<open>[[-180,maxLat],[maxLon-360,minLat]]\<close>: in this range both
  subtractions are exact in double arithmetic.
\<close>

theorem convertMapExtentToEnvelope_east_crossing:
  assumes "maxLon ext = Fin M" and "is_double M" and "180 < M" and "M \<le> 540"
    and "js_ge (minLon ext) (Fin (- 180))" and "js_le (minLon ext) (Fin 180)"
  shows "convertMapExtentToEnvelope ext =
    Some (Arr [Obj [(''type'', Str ''envelope''),
                    (''coordinates'', Arr [Arr [Num (minLon ext), Num (maxLat ext)],
                                           Arr [Num (Fin 180), Num (minLat ext)]])],
               Obj [(''type'', Str ''envelope''),
                    (''coordinates'', Arr [Arr [Num (Fin (- 180)), Num (maxLat ext)],
                                           Arr [Num (Fin (M - 360)), Num (minLat ext)]])]])"
proof -
  have e: "ext = \<lparr>maxLat = maxLat ext, maxLon = Fin M, minLat = minLat ext, minLon = minLon ext\<rparr>"
    using assms(1) by (cases ext) simp
  have nl: "\<not> js_lt (minLon ext) (Fin (- 180))" using assms(5) by (rule not_lt_of_ge)
  have g: "js_gt (Fin M) (Fin 180)" using assms(3) by (simp add: js_gt_def)
  have "\<not> js_gt (Fin (M - 360)) (Fin 180)" using assms(4) by (simp add: js_gt_def)
  then have second: "convertMapExtentToEnvelope
      \<lparr>maxLat = maxLat ext, maxLon = Fin (M - 360), minLat = minLat ext, minLon = Fin (- 180)\<rparr> =
      Some (envelope (Fin (- 180)) (maxLat ext) (Fin (M - 360)) (minLat ext))"
    by (rule convert_west_second)
  have "convertMapExtentToEnvelope
      \<lparr>maxLat = maxLat ext, maxLon = Fin M, minLat = minLat ext, minLon = minLon ext\<rparr> =
    Some (Arr [envelope (minLon ext) (maxLat ext) (Fin 180) (minLat ext),
               envelope (Fin (- 180)) (maxLat ext) (Fin (M - 360)) (minLat ext)])"
    unfolding convert_east [OF g nl] convert_east_first [OF nl]
      east_step_exact [OF assms(2,3,4)] second
    by simp
  then show ?thesis unfolding envelope_def using e by simp
qed

theorem convertMapExtentToEnvelope_east_crossing_witness:
  "is_double 190 \<and> js_ge (Fin 170) (Fin (- 180)) \<and> js_le (Fin 170) (Fin 180)
   \<and> convertMapExtentToEnvelope
       \<lparr>maxLat = Fin 10, maxLon = Fin 190, minLat = Fin (- 10), minLon = Fin 170\<rparr> =
     Some (Arr [Obj [(''type'', Str ''envelope''),
                     (''coordinates'', Arr [Arr [Num (Fin 170), Num (Fin 10)],
                                            Arr [Num (Fin 180), Num (Fin (- 10))]])],
                Obj [(''type'', Str ''envelope''),
                     (''coordinates'', Arr [Arr [Num (Fin (- 180)), Num (Fin 10)],
                                            Arr [Num (Fin (- 170)), Num (Fin (- 10))]])]])"
proof -
  let ?e = "\<lparr>maxLat = Fin 10, maxLon = Fin 190, minLat = Fin (- 10), minLon = Fin 170\<rparr>"
  have d: "is_double 190" using is_double_int [of 190] by simp
  have a: "js_ge (minLon ?e) (Fin (- 180))" and b: "js_le (minLon ?e) (Fin 180)"
    by (simp_all add: js_ge_def js_le_def)
  have m: "maxLon ?e = Fin 190" by simp
  have r: "(180::rat) < 190" "(190::rat) \<le> 540" by simp_all
  show ?thesis
    using d a b convertMapExtentToEnvelope_east_crossing [OF m d r a b] by simp
qed

section \<open>Dateline splitting: the longitudes of the result\<close>

lemma lons_ok_envelope:
  "lons_ok (envelope mn a mx b) \<longleftrightarrow> in_range (- 180) 180 mn \<and> in_range (- 180) 180 mx"
  by (simp add: envelope_def)

lemma base_in_range:
  assumes "\<not> js_gt mx (Fin 180)" and "\<not> js_lt mn (Fin (- 180))"
    and "js_le mn (Fin 180)" and "js_ge mx (Fin (- 180))"
  shows "in_range (- 180) 180 mn \<and> in_range (- 180) 180 mx"
  using assms
  by (cases mn; cases mx) (auto simp: in_range_def js_le_def js_ge_def js_gt_def)

lemma convert_lons_ok:
  assumes "convertMapExtentToEnvelope ext = Some out"
  shows "js_le (minLon ext) (Fin 180) \<longrightarrow> js_ge (maxLon ext) (Fin (- 180)) \<longrightarrow> lons_ok out"
proof (rule convertMapExtentToEnvelope.raw_induct
    [where P = "\<lambda>ext out. js_le (minLon ext) (Fin 180) \<longrightarrow> js_ge (maxLon ext) (Fin (- 180))
                  \<longrightarrow> lons_ok out",
      OF _ assms], goal_cases)
  case (1 f ext out)
  have c180: "js_le (Fin (- 180)) (Fin 180)" "js_ge (Fin 180) (Fin (- 180))"
    by (simp_all add: js_le_def js_ge_def)
  show ?case
  proof (intro impI)
    assume lo: "js_le (minLon ext) (Fin 180)" and hi: "js_ge (maxLon ext) (Fin (- 180))"
    consider (both) "js_gt (maxLon ext) (Fin 180)" "js_lt (minLon ext) (Fin (- 180))"
      | (east) "js_gt (maxLon ext) (Fin 180)" "\<not> js_lt (minLon ext) (Fin (- 180))"
      | (west) "\<not> js_gt (maxLon ext) (Fin 180)" "js_lt (minLon ext) (Fin (- 180))"
      | (base) "\<not> js_gt (maxLon ext) (Fin 180)" "\<not> js_lt (minLon ext) (Fin (- 180))"
      by blast
    then show "lons_ok out"
    proof cases
      case both
      with 1(2) have "f \<lparr>maxLat = maxLat ext, maxLon = Fin 180, minLat = minLat ext,
                          minLon = Fin (- 180)\<rparr> = Some out" by simp
      from 1(1) [OF this] show ?thesis using c180 by simp
    next
      case east
      with 1(2) obtain x y where
        x: "f \<lparr>maxLat = maxLat ext, maxLon = Fin 180, minLat = minLat ext,
               minLon = minLon ext\<rparr> = Some x"
        and y: "f \<lparr>maxLat = maxLat ext,
                  maxLon = js_add (Fin (- 180)) (js_sub (maxLon ext) (Fin 180)),
                  minLat = minLat ext, minLon = Fin (- 180)\<rparr> = Some y"
        and o: "out = Arr [x, y]"
        by (auto simp: Let_def bind_eq_Some_conv)
      have "lons_ok x" using 1(1) [OF x] lo c180 by simp
      moreover have "lons_ok y" using 1(1) [OF y] east_step_ge [OF east(1)] c180 by simp
      ultimately show ?thesis by (simp add: o)
    next
      case west
      with 1(2) obtain x y where
        x: "f \<lparr>maxLat = maxLat ext, maxLon = Fin 180, minLat = minLat ext,
               minLon = js_sub (Fin 180) (js_sub (js_abs (minLon ext)) (Fin 180))\<rparr> = Some x"
        and y: "f \<lparr>maxLat = maxLat ext, maxLon = maxLon ext, minLat = minLat ext,
                  minLon = Fin (- 180)\<rparr> = Some y"
        and o: "out = Arr [x, y]"
        by (auto simp: Let_def bind_eq_Some_conv)
      have "lons_ok x" using 1(1) [OF x] west_step_le [OF west(2)] c180 by simp
      moreover have "lons_ok y" using 1(1) [OF y] hi c180 by simp
      ultimately show ?thesis by (simp add: o)
    next
      case base
      with 1(2) have o: "out = envelope (minLon ext) (maxLat ext) (maxLon ext) (minLat ext)"
        by simp
      show ?thesis
        unfolding o lons_ok_envelope using base_in_range [OF base lo hi] .
    qed
  qed
qed

lemma east_210:
  "js_add (Fin (- 180)) (js_sub (Fin 210) (Fin 180)) = Fin (- 150)"
  using fl_int_small [of 30] fl_int_small [of "- 150"]
  by (simp add: js_sub_Fin rnd_def Let_def)

text \<open>
  C4, as stated, fails: an extent lying east of 180 takes the \<open>maxLon > 180\<close> branch, whose
  first half keeps \<open>minLon\<close> as it is.
\<close>

theorem convertMapExtentToEnvelope_east_of_180_counterexample:
  "convertMapExtentToEnvelope
     \<lparr>maxLat = Fin 10, maxLon = Fin 210, minLat = Fin (- 10), minLon = Fin 200\<rparr> =
   Some (Arr [Obj [(''type'', Str ''envelope''),
                   (''coordinates'', Arr [Arr [Num (Fin 200), Num (Fin 10)],
                                          Arr [Num (Fin 180), Num (Fin (- 10))]])],
              Obj [(''type'', Str ''envelope''),
                   (''coordinates'', Arr [Arr [Num (Fin (- 180)), Num (Fin 10)],
                                          Arr [Num (Fin (- 150)), Num (Fin (- 10))]])]])
   \<and> \<not> lons_ok
       (Arr [Obj [(''type'', Str ''envelope''),
                  (''coordinates'', Arr [Arr [Num (Fin 200), Num (Fin 10)],
                                         Arr [Num (Fin 180), Num (Fin (- 10))]])],
             Obj [(''type'', Str ''envelope''),
                  (''coordinates'', Arr [Arr [Num (Fin (- 180)), Num (Fin 10)],
                                         Arr [Num (Fin (- 150)), Num (Fin (- 10))]])]])"
proof -
  have g: "js_gt (Fin 210) (Fin 180)" by (simp add: js_gt_def)
  have nl: "\<not> js_lt (Fin 200) (Fin (- 180))" by simp
  have "\<not> js_gt (Fin (- 150)) (Fin 180)" by (simp add: js_gt_def)
  note second = convert_west_second [OF this, of "Fin 10" "Fin (- 10)"]
  have "convertMapExtentToEnvelope
     \<lparr>maxLat = Fin 10, maxLon = Fin 210, minLat = Fin (- 10), minLon = Fin 200\<rparr> =
    Some (Arr [envelope (Fin 200) (Fin 10) (Fin 180) (Fin (- 10)),
               envelope (Fin (- 180)) (Fin 10) (Fin (- 150)) (Fin (- 10))])"
    unfolding convert_east [OF g nl] convert_east_first [OF nl] east_210 second
    by simp
  then show ?thesis
    by (simp add: envelope_def in_range_def js_le_def)
qed

text \<open>
  C4, amended. For every extent with \<open>minLon <= 180\<close> and \<open>maxLon >= -180\<close>, every envelope
  record occurring anywhere in the (possibly nested) result of \<open>convertMapExtentToEnvelope\<close>
  has both of its longitudes within \<open>[-180,180]\<close>; and there is a result whenever the two
  longitude bounds are finite and at most \<open>2^53\<close> in magnitude.
\<close>

theorem convertMapExtentToEnvelope_lons_in_range:
  assumes "js_le (minLon ext) (Fin 180)" and "js_ge (maxLon ext) (Fin (- 180))"
  shows "(\<forall>out. convertMapExtentToEnvelope ext = Some out \<longrightarrow> lons_ok out)
       \<and> (\<forall>M m. maxLon ext = Fin M \<and> minLon ext = Fin m \<and> \<bar>M\<bar> \<le> 2 ^ 53 \<and> \<bar>m\<bar> \<le> 2 ^ 53 \<longrightarrow>
            (\<exists>out. convertMapExtentToEnvelope ext = Some out))"
proof (intro conjI allI impI)
  fix out
  assume "convertMapExtentToEnvelope ext = Some out"
  from convert_lons_ok [OF this] assms show "lons_ok out" by simp
next
  fix M m
  assume a: "maxLon ext = Fin M \<and> minLon ext = Fin m \<and> \<bar>M\<bar> \<le> 2 ^ 53 \<and> \<bar>m\<bar> \<le> 2 ^ 53"
  then have e: "ext = \<lparr>maxLat = maxLat ext, maxLon = Fin M, minLat = minLat ext, minLon = Fin m\<rparr>"
    by (cases ext) simp
  have "(2::rat) ^ 53 \<le> 2 ^ 61" by simp
  with a have "M \<le> 2 ^ 61 \<or> m < - 180" "- (2 ^ 61) \<le> m \<or> 180 < M" by linarith+
  from convert_terminates_aux [OF this, of "maxLat ext" "minLat ext"]
  show "\<exists>out. convertMapExtentToEnvelope ext = Some out"
    by (subst e) simp
qed

theorem convertMapExtentToEnvelope_lons_in_range_witness:
  "js_le (Fin (- 200)) (Fin 180) \<and> js_ge (Fin 170) (Fin (- 180))
   \<and> (\<exists>out. convertMapExtentToEnvelope
         \<lparr>maxLat = Fin 10, maxLon = Fin 170, minLat = Fin (- 10), minLon = Fin (- 200)\<rparr> =
         Some out \<and> lons_ok out)"
proof -
  let ?e = "\<lparr>maxLat = Fin 10, maxLon = Fin 170, minLat = Fin (- 10), minLon = Fin (- 200)\<rparr>"
  have a: "js_le (minLon ?e) (Fin 180)" and b: "js_ge (maxLon ?e) (Fin (- 180))"
    by (simp_all add: js_le_def js_ge_def)
  note t = convertMapExtentToEnvelope_lons_in_range [OF a b]
  have "maxLon ?e = Fin 170 \<and> minLon ?e = Fin (- 200) \<and> \<bar>170::rat\<bar> \<le> 2 ^ 53
      \<and> \<bar>- 200::rat\<bar> \<le> 2 ^ 53" by simp
  with t obtain out where o: "convertMapExtentToEnvelope ?e = Some out" by blast
  with t have "lons_ok out" by blast
  with o a b show ?thesis by auto
qed

end
